theory Spec2Isabelle
  imports Complex_Main "HOL-Library.Multiset" "HOL-Library.Char_ord"
    "HOL-Library.List_Lexorder" "HOL-Library.Product_Lexorder"
begin

section \<open>Score decoder (\<^verbatim>\<open>parse_score\<close>)\<close>

text \<open>
  Python strings are modelled as \<^typ>\<open>string\<close> restricted to ASCII; Python's unbounded
  integers as \<^typ>\<open>int\<close>; floats as \<^typ>\<open>real\<close> (exact arithmetic, no rounding).
  A value that is not a \<^verbatim>\<open>str\<close> (NaN, a number, \<^verbatim>\<open>None\<close>) is \<^term>\<open>None\<close>.
\<close>

definition is_digit :: "char \<Rightarrow> bool" where
  "is_digit c = (c \<in> set ''0123456789'')"

definition is_space :: "char \<Rightarrow> bool" where
  \<comment> \<open>the ASCII characters for which \<^verbatim>\<open>str.isspace\<close> holds\<close>
  "is_space c = (of_char c \<in> {9, 10, 11, 12, 13, 28, 29, 30, 31, 32 :: nat})"

definition strip :: "string \<Rightarrow> string" where
  "strip s = rev (dropWhile is_space (rev (dropWhile is_space s)))"

definition lower_char :: "char \<Rightarrow> char" where
  "lower_char c = (if CHR ''A'' \<le> c \<and> c \<le> CHR ''Z'' then char_of (of_char c + (32 :: nat)) else c)"

definition lower :: "string \<Rightarrow> string" where
  "lower s = map lower_char s"

fun starts_with :: "string \<Rightarrow> string \<Rightarrow> bool" where
  "starts_with s [] = True"
| "starts_with [] (p # ps) = False"
| "starts_with (c # cs) (p # ps) = (c = p \<and> starts_with cs ps)"

fun contains :: "string \<Rightarrow> string \<Rightarrow> bool" where
  \<comment> \<open>\<^verbatim>\<open>sub in s\<close>\<close>
  "contains sub [] = (sub = [])"
| "contains sub (c # cs) = (starts_with (c # cs) sub \<or> contains sub cs)"

definition digit_val :: "char \<Rightarrow> int" where
  "digit_val c = int (of_char c) - 48"

definition int_of_digits :: "string \<Rightarrow> int" where
  \<comment> \<open>\<^verbatim>\<open>int(s)\<close> on a non-empty run of decimal digits\<close>
  "int_of_digits s = foldl (\<lambda>n c. 10 * n + digit_val c) 0 s"

definition match_at :: "string \<Rightarrow> (string \<times> string \<times> string) option" where
  \<comment> \<open>\<^verbatim>\<open>(\d+)-(\d+)\<close> anchored at the head of the text: both groups are greedy, and a
      shorter first group can never be followed by the hyphen; returns the two groups and
      the text after the match\<close>
  "match_at s =
     (let left = takeWhile is_digit s; rest = dropWhile is_digit s in
      if left = [] then None
      else (case rest of
              [] \<Rightarrow> None
            | d # after \<Rightarrow>
                if d = CHR ''-'' \<and> takeWhile is_digit after \<noteq> []
                then Some (left, takeWhile is_digit after, dropWhile is_digit after)
                else None))"

function findall :: "string \<Rightarrow> (string \<times> string) list" where
  \<comment> \<open>\<^verbatim>\<open>SCORE_PATTERN.findall\<close>: non-overlapping matches, leftmost first; a position
      where the pattern does not match is skipped\<close>
  "findall s =
     (if s = [] then []
      else (case match_at s of
              Some (l, r, rest) \<Rightarrow> (l, r) # findall rest
            | None \<Rightarrow> findall (tl s)))"
  by pat_completeness auto
termination
proof (relation "measure length")
  show "wf (measure length)" by simp
next
  fix s :: string and x2 l y r rest
  assume "match_at s = Some x2" and "(l, y) = x2" and "(r, rest) = y"
  then obtain after where a: "dropWhile is_digit s = CHR ''-'' # after"
    and r: "rest = dropWhile is_digit after"
    by (auto simp: match_at_def Let_def split: if_splits list.splits)
  have "length rest \<le> length after"
    using r by (simp add: length_dropWhile_le)
  also have "length after < length (dropWhile is_digit s)"
    using a by simp
  also have "\<dots> \<le> length s"
    by (simp add: length_dropWhile_le)
  finally show "(rest, s) \<in> measure length" by simp
next
  fix s :: string
  assume "s \<noteq> []"
  then show "(tl s, s) \<in> measure length" by (cases s) simp_all
qed

declare findall.simps [simp del]

record score_acc =
  games_1 :: int
  games_2 :: int
  sets_1 :: int
  sets_2 :: int
  tie_breaks :: int

definition score_zero :: score_acc where
  "score_zero = \<lparr>games_1 = 0, games_2 = 0, sets_1 = 0, sets_2 = 0, tie_breaks = 0\<rparr>"

definition score_step :: "score_acc \<Rightarrow> string \<times> string \<Rightarrow> score_acc" where
  \<comment> \<open>the body of the \<^verbatim>\<open>for left, right in ...\<close> loop\<close>
  "score_step a p =
     (let g1 = int_of_digits (fst p); g2 = int_of_digits (snd p) in
      \<lparr>games_1 = games_1 a + g1,
       games_2 = games_2 a + g2,
       sets_1 = (if g1 > g2 then sets_1 a + 1 else sets_1 a),
       sets_2 = (if g1 > g2 then sets_2 a else if g2 > g1 then sets_2 a + 1 else sets_2 a),
       tie_breaks = (if max g1 g2 \<ge> 7 then tie_breaks a + 1 else tie_breaks a)\<rparr>)"

definition parse_score :: "string option \<Rightarrow> score_acc" where
  "parse_score score =
     (case score of
        None \<Rightarrow> score_zero
      | Some raw \<Rightarrow>
          (let s = strip raw in
           if s = [] \<or> contains ''w/o'' (lower s) \<or> contains ''walkover'' (lower s)
           then score_zero
           else foldl score_step score_zero (findall s)))"


section \<open>Configuration and match records\<close>

record config =
  min_year :: int
  rolling_matches :: int
  rolling_surface_matches :: int
  rolling_days :: int
  elo_k :: real
  surface_elo_k :: real
  elo_decay :: real
  output_path :: string

definition default_config :: config where
  "default_config =
     \<lparr>min_year = 2010, rolling_matches = 10, rolling_surface_matches = 6,
      rolling_days = 365, elo_k = 32, surface_elo_k = 24, elo_decay = 1 / 100,
      output_path = ''data/processed_matches.csv''\<rparr>"

text \<open>
  A parsed date: the calendar year read by \<^verbatim>\<open>.year\<close> and the day ordinal that orders
  dates and gives their difference in days.
\<close>

record timestamp =
  year :: int
  ordinal :: int

text \<open>The pass-through metadata columns.\<close>

record meta =
  tournament :: "string option"
  court :: "string option"
  round_col :: "string option"
  best_of :: "string option"

text \<open>
  A row of the match table; a missing cell (NaN, NaT) is \<^term>\<open>None\<close>. The numeric
  cells hold the value after \<^verbatim>\<open>pd.to_numeric(errors="coerce")\<close>, the date cell the
  value after \<^verbatim>\<open>pd.to_datetime(errors="coerce")\<close>. The types of three columns change
  along the pipeline and are parameters: \<^verbatim>\<open>match_id\<close> does not exist in the raw
  table, and the date and the two player names are optional there and present in every row
  that reaches the stateful loops.
\<close>

record ('i, 'd, 'p) cells =
  match_id :: 'i
  date :: 'd
  player_1 :: 'p
  player_2 :: 'p
  winner :: "string option"
  surface :: "string option"
  score :: "string option"
  rank_1 :: "real option"
  rank_2 :: "real option"
  pts_1 :: "real option"
  pts_2 :: "real option"
  odd_1 :: "real option"
  odd_2 :: "real option"
  rank_diff :: "real option"
  pts_diff :: "real option"
  odd_diff :: "real option"
  info :: meta

type_synonym raw_row = "(unit, timestamp option, string option) cells"

type_synonym match = "(nat, timestamp, string) cells"

record table =
  columns :: "string list"
  rows :: "raw_row list"

section \<open>Loops that read a snapshot and then advance a state\<close>

text \<open>
  \<^verbatim>\<open>for row in df.itertuples(): out.append(read(state, row)); state = update(state, row)\<close>
\<close>

fun run_loop :: "('a \<Rightarrow> 's \<Rightarrow> 'b \<times> 's) \<Rightarrow> 's \<Rightarrow> 'a list \<Rightarrow> 'b list" where
  "run_loop step st [] = []"
| "run_loop step st (x # xs) = fst (step x st) # run_loop step (snd (step x st)) xs"

fun final_state :: "('a \<Rightarrow> 's \<Rightarrow> 'b \<times> 's) \<Rightarrow> 's \<Rightarrow> 'a list \<Rightarrow> 's" where
  "final_state step st [] = st"
| "final_state step st (x # xs) = final_state step (snd (step x st)) xs"

section \<open>Rating engine (\<^verbatim>\<open>compute_elo\<close>)\<close>

text \<open>
  \<^verbatim>\<open>defaultdict(lambda: 1500.0)\<close>: a finite map with a default on lookup. A lookup of a
  missing key also stores the default; in the loop every such lookup is followed by an
  assignment to the same key, so the stored default is never observed on its own.
  Ratings are real numbers: the rounding of double precision, that of the library's power and
  exponential functions included, is outside the model, and so is every property that holds
  or fails through rounding alone.
\<close>

definition get_rating :: "('k \<rightharpoonup> real) \<Rightarrow> 'k \<Rightarrow> real" where
  "get_rating m k = (case m k of None \<Rightarrow> 1500 | Some r \<Rightarrow> r)"

record elo_state =
  ratings :: "string \<rightharpoonup> real"
  surface_ratings :: "(string \<times> string option) \<rightharpoonup> real"
  last_year :: "int option"

definition elo_init :: elo_state where
  "elo_init = \<lparr>ratings = Map.empty, surface_ratings = Map.empty, last_year = None\<rparr>"

record elo_row =
  elo_p1 :: real
  elo_p2 :: real
  surface_elo_p1 :: real
  surface_elo_p2 :: real

definition decay_all :: "real \<Rightarrow> ('k \<rightharpoonup> real) \<Rightarrow> ('k \<rightharpoonup> real)" where
  \<comment> \<open>\<^verbatim>\<open>for key in list(d.keys()): d[key] = 1500.0 + (d[key] - 1500.0) * decay\<close>\<close>
  "decay_all decay m = (\<lambda>k. map_option (\<lambda>r. 1500 + (r - 1500) * decay) (m k))"

definition elo_decay_step :: "config \<Rightarrow> int \<Rightarrow> elo_state \<Rightarrow> elo_state" where
  \<comment> \<open>lines 147 to 154: the year check, the decay of every stored rating, the new
      \<^verbatim>\<open>last_year\<close>\<close>
  "elo_decay_step cfg yr st =
     (case last_year st of
        None \<Rightarrow> st\<lparr>last_year := Some yr\<rparr>
      | Some ly \<Rightarrow>
          if yr > ly then
            (let decay = exp (- elo_decay cfg * real_of_int (yr - ly)) in
             st\<lparr>ratings := decay_all decay (ratings st),
                surface_ratings := decay_all decay (surface_ratings st),
                last_year := Some yr\<rparr>)
          else st\<lparr>last_year := Some yr\<rparr>)"

definition expected_score :: "real \<Rightarrow> real \<Rightarrow> real" where
  "expected_score ra rb = 1 / (1 + 10 powr ((rb - ra) / 400))"

definition outcome_of :: "match \<Rightarrow> real" where
  "outcome_of row = (if winner row = Some (player_1 row) then 1 else 0)"

definition elo_update :: "config \<Rightarrow> match \<Rightarrow> elo_state \<Rightarrow> elo_row \<times> elo_state" where
  \<comment> \<open>lines 156 to 173: read the four ratings, append them, write the four new ratings;
      the default \<^verbatim>\<open>"Unknown"\<close> of a missing surface column is not modelled, since a run
      without that column fails in \<^verbatim>\<open>expand_long\<close>; a missing surface cell is a key like
      any other\<close>
  "elo_update cfg row st =
     (let p1 = player_1 row; p2 = player_2 row; sf = surface row;
          r1 = get_rating (ratings st) p1; r2 = get_rating (ratings st) p2;
          s1 = get_rating (surface_ratings st) (p1, sf);
          s2 = get_rating (surface_ratings st) (p2, sf);
          expected = expected_score r1 r2;
          outcome = outcome_of row;
          rs = (ratings st)(p1 \<mapsto> r1 + elo_k cfg * (outcome - expected));
          rs' = rs(p2 \<mapsto> r2 + elo_k cfg * ((1 - outcome) - (1 - expected)));
          expected_surface = expected_score s1 s2;
          ss = (surface_ratings st)((p1, sf) \<mapsto> s1 + surface_elo_k cfg * (outcome - expected_surface));
          ss' = ss((p2, sf) \<mapsto> s2 + surface_elo_k cfg * ((1 - outcome) - (1 - expected_surface)))
      in (\<lparr>elo_p1 = r1, elo_p2 = r2, surface_elo_p1 = s1, surface_elo_p2 = s2\<rparr>,
          st\<lparr>ratings := rs', surface_ratings := ss'\<rparr>))"

definition elo_step :: "config \<Rightarrow> match \<Rightarrow> elo_state \<Rightarrow> elo_row \<times> elo_state" where
  "elo_step cfg row st = elo_update cfg row (elo_decay_step cfg (year (date row)) st)"

definition compute_elo :: "config \<Rightarrow> match list \<Rightarrow> elo_row list" where
  "compute_elo cfg df = run_loop (elo_step cfg) elo_init df"

section \<open>Head-to-head tracker (\<^verbatim>\<open>compute_head_to_head\<close>)\<close>

text \<open>
  \<^verbatim>\<open>defaultdict(int)\<close> for the win counters (the keys are never enumerated, so a key
  stored by a lookup is not observable) and a plain dict read with \<^verbatim>\<open>.get\<close> for the
  last winner.
\<close>

definition get_wins :: "('k \<rightharpoonup> int) \<Rightarrow> 'k \<Rightarrow> int" where
  "get_wins m k = (case m k of None \<Rightarrow> 0 | Some n \<Rightarrow> n)"

record h2h_state =
  h2h_wins :: "(string \<times> string) \<rightharpoonup> int"
  last_winner :: "(string \<times> string) \<rightharpoonup> int"

definition h2h_init :: h2h_state where
  "h2h_init = \<lparr>h2h_wins = Map.empty, last_winner = Map.empty\<rparr>"

record h2h_row =
  h2h_advantage :: real
  last_winner_indicator :: int

definition h2h_read :: "match \<Rightarrow> h2h_state \<Rightarrow> h2h_row" where
  "h2h_read row st =
     (let key = (player_1 row, player_2 row); rev_key = (player_2 row, player_1 row);
          wins = get_wins (h2h_wins st) key;
          losses = get_wins (h2h_wins st) rev_key;
          total = wins + losses;
          adv = (if total > 0 then real_of_int (wins - losses) / real_of_int total else 0);
          last = last_winner st key
      in \<lparr>h2h_advantage = adv,
          last_winner_indicator = (if last = Some 1 then 1 else if last = Some (- 1) then - 1 else 0)\<rparr>)"

definition h2h_record :: "match \<Rightarrow> h2h_state \<Rightarrow> h2h_state" where
  "h2h_record row st =
     (let key = (player_1 row, player_2 row); rev_key = (player_2 row, player_1 row) in
      if winner row = Some (player_1 row) then
        \<lparr>h2h_wins = (h2h_wins st)(key \<mapsto> get_wins (h2h_wins st) key + 1),
         last_winner = ((last_winner st)(key \<mapsto> 1))(rev_key \<mapsto> - 1)\<rparr>
      else
        \<lparr>h2h_wins = (h2h_wins st)(rev_key \<mapsto> get_wins (h2h_wins st) rev_key + 1),
         last_winner = ((last_winner st)(key \<mapsto> - 1))(rev_key \<mapsto> 1)\<rparr>)"

definition h2h_step :: "match \<Rightarrow> h2h_state \<Rightarrow> h2h_row \<times> h2h_state" where
  "h2h_step row st = (h2h_read row st, h2h_record row st)"

definition compute_head_to_head :: "match list \<Rightarrow> h2h_row list" where
  "compute_head_to_head df = run_loop h2h_step h2h_init df"


section \<open>Score columns (\<^verbatim>\<open>add_score_features\<close>)\<close>

definition fillna_str :: "string option \<Rightarrow> string option" where
  \<comment> \<open>\<^verbatim>\<open>scores.fillna("")\<close>\<close>
  "fillna_str v = (case v of None \<Rightarrow> Some [] | Some t \<Rightarrow> Some t)"

definition score_cols :: "match \<Rightarrow> score_acc" where
  "score_cols m = parse_score (fillna_str (score m))"

definition games_delta :: "match \<Rightarrow> int" where
  "games_delta m = games_1 (score_cols m) - games_2 (score_cols m)"

definition sets_delta :: "match \<Rightarrow> int" where
  "sets_delta m = sets_1 (score_cols m) - sets_2 (score_cols m)"

section \<open>One row per player and match (\<^verbatim>\<open>expand_long\<close>)\<close>

record long_row =
  l_match_id :: nat
  l_date :: timestamp
  l_surface :: "string option"
  player :: string
  is_player_1 :: bool
  won :: int
  games_delta_signed :: int
  sets_delta_signed :: int
  tie_breaks_played :: int
  player_rank :: "real option"
  player_pts :: "real option"

definition first_half :: "match \<Rightarrow> long_row" where
  "first_half m =
     \<lparr>l_match_id = match_id m, l_date = date m, l_surface = surface m,
      player = player_1 m, is_player_1 = True,
      won = (if winner m = Some (player_1 m) then 1 else 0),
      games_delta_signed = games_delta m,
      sets_delta_signed = sets_delta m,
      tie_breaks_played = tie_breaks (score_cols m),
      player_rank = rank_1 m, player_pts = pts_1 m\<rparr>"

definition second_half :: "match \<Rightarrow> long_row" where
  "second_half m =
     \<lparr>l_match_id = match_id m, l_date = date m, l_surface = surface m,
      player = player_2 m, is_player_1 = False,
      won = (if winner m = Some (player_2 m) then 1 else 0),
      games_delta_signed = - games_delta m,
      sets_delta_signed = - sets_delta m,
      tie_breaks_played = tie_breaks (score_cols m),
      player_rank = rank_2 m, player_pts = pts_2 m\<rparr>"

definition expand_long :: "match list \<Rightarrow> long_row list" where
  \<comment> \<open>\<^verbatim>\<open>pd.concat([first, second], ignore_index=True)\<close>\<close>
  "expand_long df = map first_half df @ map second_half df"

section \<open>Rolling window aggregator (\<^verbatim>\<open>add_rolling_features\<close>)\<close>

text \<open>A series is a list of optional values, \<^term>\<open>None\<close> for NaN.\<close>

definition shift :: "nat \<Rightarrow> 'a option list \<Rightarrow> 'a option list" where
  \<comment> \<open>\<^verbatim>\<open>Series.shift(n)\<close>\<close>
  "shift n xs = take (length xs) (replicate n None @ xs)"

definition window_mean :: "nat \<Rightarrow> nat \<Rightarrow> real option list \<Rightarrow> nat \<Rightarrow> real option" where
  \<comment> \<open>\<^verbatim>\<open>rolling(window, min_periods).mean()\<close> at position \<open>j\<close>: the mean of the values
      present among the last \<open>window\<close> positions up to \<open>j\<close>, NaN when fewer than
      \<open>min_periods\<close> of them are present\<close>
  "window_mean window min_periods xs j =
     (let vals = List.map_filter id (drop (Suc j - window) (take (Suc j) xs)) in
      if vals = [] \<or> length vals < min_periods then None
      else Some (sum_list vals / real (length vals)))"

definition rolling_mean :: "nat \<Rightarrow> nat \<Rightarrow> real option list \<Rightarrow> real option list" where
  "rolling_mean window min_periods xs = map (window_mean window min_periods xs) [0..<length xs]"

definition rolling :: "real option list \<Rightarrow> nat \<Rightarrow> nat \<Rightarrow> real option list" where
  \<comment> \<open>the local function \<^verbatim>\<open>_rolling\<close>\<close>
  "rolling series window min_periods = rolling_mean window min_periods (shift 1 series)"

definition sub_opt :: "real option \<Rightarrow> real option \<Rightarrow> real option" where
  \<comment> \<open>subtraction of two cells: NaN when either is NaN\<close>
  "sub_opt a b = (case a of None \<Rightarrow> None | Some x \<Rightarrow> (case b of None \<Rightarrow> None | Some y \<Rightarrow> Some (x - y)))"

definition trend :: "real option list \<Rightarrow> real option list" where
  \<comment> \<open>\<^verbatim>\<open>lambda s: s.shift(1) - s.shift(2)\<close>\<close>
  "trend s = map2 sub_opt (shift 1 s) (shift 2 s)"

definition diff_days :: "int list \<Rightarrow> real option list" where
  \<comment> \<open>\<^verbatim>\<open>.diff().dt.days\<close> on the dates of one group\<close>
  "diff_days ds = map (\<lambda>j. if j = 0 then None else Some (real_of_int (ds ! j - ds ! (j - 1)))) [0..<length ds]"

definition fill_clip :: "real option \<Rightarrow> real option" where
  \<comment> \<open>\<^verbatim>\<open>.fillna(30).clip(0, 60)\<close>\<close>
  "fill_clip v = Some (min 60 (max 0 (case v of None \<Rightarrow> 30 | Some d \<Rightarrow> d)))"

definition group_apply :: "('r \<Rightarrow> 'k option) \<Rightarrow> ('r list \<Rightarrow> 'v option list) \<Rightarrow> 'r list \<Rightarrow> 'v option list" where
  \<comment> \<open>\<^verbatim>\<open>groupby(key, group_keys=False)[col].apply(f)\<close>, aligned with the rows of the frame:
      the row at position \<open>j\<close> receives the value that \<open>f\<close> computes for its group at the
      row's position inside the group; a row whose key is missing belongs to no group\<close>
  "group_apply key f frame =
     map (\<lambda>j. case key (frame ! j) of
                 None \<Rightarrow> None
               | Some k \<Rightarrow>
                   f (filter (\<lambda>r. key r = Some k) frame)
                     ! length (filter (\<lambda>r. key r = Some k) (take j frame)))
         [0..<length frame]"

record rolled =
  form_win_rate :: "real option"
  surface_form_win_rate :: "real option"
  games_delta_avg :: "real option"
  sets_delta_avg :: "real option"
  tiebreak_rate :: "real option"
  rest_days :: "real option"
  rank_trend :: "real option"
  points_trend :: "real option"

datatype error = KeyError "string list" | AttributeError | ValueError

definition by_player :: "long_row \<Rightarrow> string option" where
  "by_player r = Some (player r)"

definition by_player_surface :: "long_row \<Rightarrow> (string \<times> string) option" where
  "by_player_surface r = map_option (Pair (player r)) (l_surface r)"

definition col_int :: "(long_row \<Rightarrow> int) \<Rightarrow> long_row list \<Rightarrow> real option list" where
  "col_int c g = map (\<lambda>r. Some (real_of_int (c r))) g"

definition long_key :: "long_row \<Rightarrow> string \<times> int \<times> nat" where
  "long_key r = (player r, ordinal (l_date r), l_match_id r)"

definition sort_long :: "long_row list \<Rightarrow> long_row list" where
  \<comment> \<open>\<^verbatim>\<open>sort_values(["player", "date", "match_id"])\<close>: a sort on several columns is stable\<close>
  "sort_long long_df = sort_key long_key long_df"

definition rolled_at :: "config \<Rightarrow> long_row list \<Rightarrow> nat \<Rightarrow> rolled" where
  \<comment> \<open>the new columns of the row at position \<open>j\<close> of the sorted frame\<close>
  "rolled_at cfg s j =
     (let w = nat (rolling_matches cfg); ws = nat (rolling_surface_matches cfg) in
      \<lparr>form_win_rate = group_apply by_player (\<lambda>g. rolling (col_int won g) w 3) s ! j,
       surface_form_win_rate = group_apply by_player_surface (\<lambda>g. rolling (col_int won g) ws 2) s ! j,
       games_delta_avg = group_apply by_player (\<lambda>g. rolling (col_int games_delta_signed g) w 3) s ! j,
       sets_delta_avg = group_apply by_player (\<lambda>g. rolling (col_int sets_delta_signed g) w 3) s ! j,
       tiebreak_rate = group_apply by_player (\<lambda>g. rolling (col_int tie_breaks_played g) w 3) s ! j,
       rest_days = fill_clip (group_apply by_player (\<lambda>g. diff_days (map (\<lambda>r. ordinal (l_date r)) g)) s ! j),
       rank_trend = group_apply by_player (\<lambda>g. trend (map player_rank g)) s ! j,
       points_trend = group_apply by_player (\<lambda>g. trend (map player_pts g)) s ! j\<rparr>)"

definition add_rolling_features :: "long_row list \<Rightarrow> config \<Rightarrow> error + (long_row \<times> rolled) list" where
  \<comment> \<open>\<^verbatim>\<open>rolling(window, min_periods)\<close> raises ValueError when \<open>min_periods > window\<close>; it is
      reached once for every group, so not at all when there is no group\<close>
  "add_rolling_features long_df cfg =
     (let s = sort_long long_df in
      if s \<noteq> [] \<and> rolling_matches cfg < 3 then Inl ValueError
      else if (\<exists>r \<in> set s. l_surface r \<noteq> None) \<and> rolling_surface_matches cfg < 2 then Inl ValueError
      else Inr (map (\<lambda>j. (s ! j, rolled_at cfg s j)) [0..<length s]))"

section \<open>Back to one row per match (\<^verbatim>\<open>aggregate_back\<close>)\<close>

definition nan_rolled :: rolled where
  "nan_rolled =
     \<lparr>form_win_rate = None, surface_form_win_rate = None, games_delta_avg = None,
      sets_delta_avg = None, tiebreak_rate = None, rest_days = None, rank_trend = None,
      points_trend = None\<rparr>"

definition side_of :: "bool \<Rightarrow> (long_row \<times> rolled) list \<Rightarrow> nat \<Rightarrow> rolled" where
  \<comment> \<open>\<^verbatim>\<open>long_df[long_df["is_player_1"]].set_index("match_id").reindex(df.match_id)\<close>\<close>
  "side_of side frame mid =
     (case find (\<lambda>x. is_player_1 (fst x) = side \<and> l_match_id (fst x) = mid) frame of
        None \<Rightarrow> nan_rolled
      | Some x \<Rightarrow> snd x)"

record wide_row =
  row :: match
  elo_cols :: elo_row
  h2h_cols :: h2h_row
  p1 :: rolled
  p2 :: rolled

definition aggregate_back :: "(match \<times> elo_row \<times> h2h_row) list \<Rightarrow> (long_row \<times> rolled) list \<Rightarrow> wide_row list" where
  "aggregate_back df long_df =
     map (\<lambda>x. \<lparr>row = fst x, elo_cols = fst (snd x), h2h_cols = snd (snd x),
               p1 = side_of True long_df (match_id (fst x)),
               p2 = side_of False long_df (match_id (fst x))\<rparr>) df"

definition elo_diff :: "wide_row \<Rightarrow> real" where
  "elo_diff w = elo_p1 (elo_cols w) - elo_p2 (elo_cols w)"

definition surface_elo_diff :: "wide_row \<Rightarrow> real" where
  "surface_elo_diff w = surface_elo_p1 (elo_cols w) - surface_elo_p2 (elo_cols w)"

definition form_diff :: "wide_row \<Rightarrow> real option" where
  "form_diff w = sub_opt (form_win_rate (p1 w)) (form_win_rate (p2 w))"

definition surface_form_diff :: "wide_row \<Rightarrow> real option" where
  "surface_form_diff w = sub_opt (surface_form_win_rate (p1 w)) (surface_form_win_rate (p2 w))"

definition games_margin_diff :: "wide_row \<Rightarrow> real option" where
  "games_margin_diff w = sub_opt (games_delta_avg (p1 w)) (games_delta_avg (p2 w))"

definition sets_margin_diff :: "wide_row \<Rightarrow> real option" where
  "sets_margin_diff w = sub_opt (sets_delta_avg (p1 w)) (sets_delta_avg (p2 w))"

definition rest_days_diff :: "wide_row \<Rightarrow> real option" where
  "rest_days_diff w = sub_opt (rest_days (p1 w)) (rest_days (p2 w))"

definition tiebreak_rate_diff :: "wide_row \<Rightarrow> real option" where
  "tiebreak_rate_diff w = sub_opt (tiebreak_rate (p1 w)) (tiebreak_rate (p2 w))"

definition rank_trend_diff :: "wide_row \<Rightarrow> real option" where
  "rank_trend_diff w = sub_opt (rank_trend (p1 w)) (rank_trend (p2 w))"

definition points_trend_diff :: "wide_row \<Rightarrow> real option" where
  "points_trend_diff w = sub_opt (points_trend (p1 w)) (points_trend (p2 w))"


section \<open>Main pipeline (\<^verbatim>\<open>preprocess\<close>, \<^verbatim>\<open>run_pipeline\<close>)\<close>

definition rename_column :: "string \<Rightarrow> string" where
  "rename_column c =
     (if c = ''player1'' then ''player_1'' else if c = ''player2'' then ''player_2'' else c)"

definition required :: "string list" where
  \<comment> \<open>the required columns, in the order of \<^verbatim>\<open>sorted\<close>\<close>
  "required = [''date'', ''player_1'', ''player_2'', ''winner'']"

definition long_required :: "string list" where
  \<comment> \<open>the columns of \<^verbatim>\<open>common_cols\<close> in \<^verbatim>\<open>expand_long\<close> that the pipeline has not
      created or checked itself by then\<close>
  "long_required =
     [''surface'', ''round'', ''tournament'', ''court'', ''best_of'',
      ''rank_1'', ''rank_2'', ''pts_1'', ''pts_2'', ''odd_1'', ''odd_2'']"

definition keep_row :: "config \<Rightarrow> raw_row \<Rightarrow> bool" where
  \<comment> \<open>lines 408 to 411\<close>
  "keep_row cfg r =
     (player_1 r \<noteq> None \<and> player_2 r \<noteq> None \<and>
      (case date r of None \<Rightarrow> False | Some d \<Rightarrow> year d \<ge> min_year cfg))"

definition date_key :: "raw_row \<Rightarrow> int" where
  "date_key r = (case date r of None \<Rightarrow> 0 | Some d \<Rightarrow> ordinal d)"

text \<open>
  \<^verbatim>\<open>df.sort_values("date")\<close> sorts on one column with the library's default algorithm
  (\<^verbatim>\<open>kind="quicksort"\<close>), which the library documents as not stable. The library's
  index sort is therefore a parameter \<open>argsort\<close>: from the keys to the positions in sorted
  order.
\<close>

definition sort_values :: "(int list \<Rightarrow> nat list) \<Rightarrow> ('a \<Rightarrow> int) \<Rightarrow> 'a list \<Rightarrow> 'a list" where
  "sort_values argsort key xs = map (\<lambda>i. xs ! i) (argsort (map key xs))"

definition chronological :: "(int list \<Rightarrow> nat list) \<Rightarrow> config \<Rightarrow> raw_row list \<Rightarrow> raw_row list" where
  \<comment> \<open>lines 408 to 412: the rows that are processed, in processing order\<close>
  "chronological argsort cfg rs = sort_values argsort date_key (filter (keep_row cfg) rs)"

definition mk_match :: "nat \<Rightarrow> raw_row \<Rightarrow> match" where
  \<comment> \<open>a kept row with its \<^verbatim>\<open>match_id\<close>\<close>
  "mk_match i r =
     \<lparr>match_id = i, date = the (date r), player_1 = the (player_1 r),
      player_2 = the (player_2 r), winner = winner r, surface = surface r, score = score r,
      rank_1 = rank_1 r, rank_2 = rank_2 r, pts_1 = pts_1 r, pts_2 = pts_2 r,
      odd_1 = odd_1 r, odd_2 = odd_2 r, rank_diff = rank_diff r, pts_diff = pts_diff r,
      odd_diff = odd_diff r, info = info r\<rparr>"

definition with_match_id :: "raw_row list \<Rightarrow> match list" where
  \<comment> \<open>\<^verbatim>\<open>df["match_id"] = np.arange(len(df))\<close>\<close>
  "with_match_id rs = map (\<lambda>x. mk_match (fst x) (snd x)) (enumerate 0 rs)"

definition y_label :: "match \<Rightarrow> int" where
  \<comment> \<open>the column \<^verbatim>\<open>y\<close>\<close>
  "y_label m = (if winner m = Some (player_1 m) then 1 else 0)"

definition numeric_cols :: "string list \<Rightarrow> wide_row \<Rightarrow> (string \<times> real option) list" where
  \<comment> \<open>\<^verbatim>\<open>[c for c in numeric_diff_cols if c in df.columns]\<close> with the cells of one row\<close>
  "numeric_cols cols w =
     (if ''rank_diff'' \<in> set cols then [(''rank_diff'', rank_diff (row w))] else []) @
     (if ''pts_diff'' \<in> set cols then [(''pts_diff'', pts_diff (row w))] else []) @
     (if ''odd_diff'' \<in> set cols then [(''odd_diff'', odd_diff (row w))] else []) @
     [(''elo_diff'', Some (elo_diff w)),
      (''surface_elo_diff'', Some (surface_elo_diff w)),
      (''form_diff'', form_diff w),
      (''surface_form_diff'', surface_form_diff w),
      (''games_margin_diff'', games_margin_diff w),
      (''sets_margin_diff'', sets_margin_diff w),
      (''rest_days_diff'', rest_days_diff w),
      (''tiebreak_rate_diff'', tiebreak_rate_diff w),
      (''rank_trend_diff'', rank_trend_diff w),
      (''points_trend_diff'', points_trend_diff w),
      (''h2h_advantage'', Some (h2h_advantage (h2h_cols w))),
      (''last_winner_indicator'', Some (real_of_int (last_winner_indicator (h2h_cols w))))]"

text \<open>
  An output row: the source row for the pass-through columns (tournament, date, court,
  surface, round, best_of, player_1, player_2, winner, score), the label, the year and the
  numeric columns by name.
\<close>

record out_row =
  source :: match
  y_col :: int
  out_year :: int
  numeric :: "(string \<times> real option) list"

definition out_of :: "string list \<Rightarrow> wide_row \<Rightarrow> out_row" where
  "out_of cols w =
     \<lparr>source = row w, y_col = y_label (row w), out_year = year (date (row w)),
      numeric = numeric_cols cols w\<rparr>"

definition dropna :: "string list \<Rightarrow> wide_row list \<Rightarrow> wide_row list" where
  \<comment> \<open>\<^verbatim>\<open>df.dropna(subset=present_numeric, how="any")\<close>\<close>
  "dropna cols ws = filter (\<lambda>w. \<forall>c \<in> set (numeric_cols cols w). snd c \<noteq> None) ws"

definition assemble :: "config \<Rightarrow> match list \<Rightarrow> error + wide_row list" where
  \<comment> \<open>lines 420 to 426 on a frame whose required columns are all there\<close>
  "assemble cfg df =
     (case add_rolling_features (expand_long df) cfg of
        Inl e \<Rightarrow> Inl e
      | Inr long_df \<Rightarrow>
          Inr (aggregate_back (zip df (zip (compute_elo cfg df) (compute_head_to_head df))) long_df))"

definition preprocess :: "(int list \<Rightarrow> nat list) \<Rightarrow> table \<Rightarrow> config \<Rightarrow> error + out_row list" where
  \<comment> \<open>the exceptions in the order in which the code reaches them: the required columns;
      \<^verbatim>\<open>df.get("score")\<close> is \<^verbatim>\<open>None\<close> without a score column; on a frame with no
      row, \<^verbatim>\<open>add_score_features\<close> assigns a table with no column to five columns, which
      the library refuses; the columns that \<^verbatim>\<open>expand_long\<close> checks; the window sizes\<close>
  "preprocess argsort tbl cfg =
     (let cols = map rename_column (columns tbl);
          missing = filter (\<lambda>c. c \<notin> set cols) required
      in if missing \<noteq> [] then Inl (KeyError missing)
         else if ''score'' \<notin> set cols then Inl AttributeError
         else if chronological argsort cfg (rows tbl) = [] then Inl ValueError
         else if filter (\<lambda>c. c \<notin> set cols) long_required \<noteq> []
         then Inl (KeyError (filter (\<lambda>c. c \<notin> set cols) long_required))
         else (case assemble cfg (with_match_id (chronological argsort cfg (rows tbl))) of
                 Inl e \<Rightarrow> Inl e
               | Inr ws \<Rightarrow> Inr (map (out_of cols) (dropna cols ws))))"

definition normalise_column :: "string \<Rightarrow> string" where
  \<comment> \<open>\<^verbatim>\<open>c.strip().lower().replace(" ", "_")\<close>\<close>
  "normalise_column c = map (\<lambda>ch. if ch = CHR '' '' then CHR ''_'' else ch) (lower (strip c))"

definition load_raw_matches :: "table \<Rightarrow> table" where
  \<comment> \<open>the table as \<^verbatim>\<open>pd.read_csv\<close> returns it, with the column names normalised\<close>
  "load_raw_matches tbl = tbl\<lparr>columns := map normalise_column (columns tbl)\<rparr>"

definition add_diff :: "string \<Rightarrow> string \<Rightarrow> string \<Rightarrow> (raw_row \<Rightarrow> raw_row) \<Rightarrow> table \<Rightarrow> table" where
  \<comment> \<open>lines 488 to 493: a difference column is added when it is absent and both of its
      sources are present\<close>
  "add_diff name a b fill tbl =
     (if name \<notin> set (columns tbl) \<and> a \<in> set (columns tbl) \<and> b \<in> set (columns tbl)
      then \<lparr>columns = columns tbl @ [name], rows = map fill (rows tbl)\<rparr>
      else tbl)"

definition run_pipeline ::
  "(int list \<Rightarrow> nat list) \<Rightarrow> config \<Rightarrow> table \<Rightarrow> (string \<rightharpoonup> out_row list)
     \<Rightarrow> (error + out_row list) \<times> (string \<rightharpoonup> out_row list)" where
  \<comment> \<open>the run on the table read from the input path, with the files written so far; an
      exception leaves them as they are\<close>
  "run_pipeline argsort cfg file written =
     (let df = load_raw_matches file;
          df = add_diff ''rank_diff'' ''rank_1'' ''rank_2''
                 (\<lambda>r. r\<lparr>rank_diff := sub_opt (rank_1 r) (rank_2 r)\<rparr>) df;
          df = add_diff ''pts_diff'' ''pts_1'' ''pts_2''
                 (\<lambda>r. r\<lparr>pts_diff := sub_opt (pts_1 r) (pts_2 r)\<rparr>) df;
          df = add_diff ''odd_diff'' ''odd_1'' ''odd_2''
                 (\<lambda>r. r\<lparr>odd_diff := sub_opt (odd_1 r) (odd_2 r)\<rparr>) df
      in case preprocess argsort df cfg of
           Inl e \<Rightarrow> (Inl e, written)
         | Inr out \<Rightarrow> (Inr out, written(output_path cfg \<mapsto> out)))"


section \<open>Reference notions of the specification\<close>

definition score_nonneg :: "score_acc \<Rightarrow> bool" where
  \<comment> \<open>five non-negative integers\<close>
  "score_nonneg a =
     (0 \<le> games_1 a \<and> 0 \<le> games_2 a \<and> 0 \<le> sets_1 a \<and> 0 \<le> sets_2 a \<and> 0 \<le> tie_breaks a)"

definition valid_winner :: "match \<Rightarrow> bool" where
  \<comment> \<open>the data model's precondition: the winner is one of the two players\<close>
  "valid_winner m = (winner m = Some (player_1 m) \<or> winner m = Some (player_2 m))"

definition wins_over :: "string \<Rightarrow> string \<Rightarrow> match list \<Rightarrow> nat" where
  \<comment> \<open>the number of meetings of \<open>a\<close> and \<open>b\<close>, in either order, that \<open>a\<close> won\<close>
  "wins_over a b ms =
     length (filter (\<lambda>m. ((player_1 m = a \<and> player_2 m = b) \<or> (player_1 m = b \<and> player_2 m = a))
                          \<and> winner m = Some a) ms)"

definition trailing_mean :: "nat \<Rightarrow> nat \<Rightarrow> real list \<Rightarrow> real option" where
  \<comment> \<open>the windowing policy in the specification's words: up to the last \<open>w\<close> of the prior
      entries; undefined when fewer than \<open>m\<close> such entries exist, their mean otherwise\<close>
  "trailing_mean w m prior =
     (let win = drop (length prior - w) prior in
      if length win < m then None else Some (sum_list win / real (length win)))"

definition history :: "long_row list \<Rightarrow> nat \<Rightarrow> long_row list" where
  \<comment> \<open>the rows of the same player before position \<open>j\<close> of the frame\<close>
  "history s j = filter (\<lambda>r. player r = player (s ! j)) (take j s)"

definition surface_history :: "long_row list \<Rightarrow> nat \<Rightarrow> long_row list" where
  \<comment> \<open>the rows of the same player on the same surface before position \<open>j\<close> of the frame\<close>
  "surface_history s j =
     filter (\<lambda>r. player r = player (s ! j) \<and> l_surface r = l_surface (s ! j)) (take j s)"

definition snapshot_of :: "config \<Rightarrow> long_row list \<Rightarrow> long_row \<Rightarrow> rolled" where
  \<comment> \<open>the specification's \<^verbatim>\<open>snapshot\<close>: the form features of a row from the player's
      earlier rows, in order, and from the date and the surface of the row itself\<close>
  "snapshot_of cfg prior r =
     (let w = nat (rolling_matches cfg); ws = nat (rolling_surface_matches cfg) in
      \<lparr>form_win_rate = trailing_mean w 3 (map (\<lambda>x. real_of_int (won x)) prior),
       surface_form_win_rate =
         (case l_surface r of
            None \<Rightarrow> None
          | Some sf \<Rightarrow>
              trailing_mean ws 2
                (map (\<lambda>x. real_of_int (won x)) (filter (\<lambda>x. l_surface x = Some sf) prior))),
       games_delta_avg = trailing_mean w 3 (map (\<lambda>x. real_of_int (games_delta_signed x)) prior),
       sets_delta_avg = trailing_mean w 3 (map (\<lambda>x. real_of_int (sets_delta_signed x)) prior),
       tiebreak_rate = trailing_mean w 3 (map (\<lambda>x. real_of_int (tie_breaks_played x)) prior),
       rest_days =
         fill_clip (if prior = [] then None
                    else Some (real_of_int (ordinal (l_date r) - ordinal (l_date (last prior))))),
       rank_trend =
         (let h = map player_rank prior; n = length h in
          if n < 2 then None else sub_opt (h ! (n - 1)) (h ! (n - 2))),
       points_trend =
         (let h = map player_pts prior; n = length h in
          if n < 2 then None else sub_opt (h ! (n - 1)) (h ! (n - 2)))\<rparr>)"

definition half :: "bool \<Rightarrow> match \<Rightarrow> long_row" where
  \<comment> \<open>the long row of one side of a match\<close>
  "half side m = (if side then first_half m else second_half m)"

definition past_rows :: "match list \<Rightarrow> match \<Rightarrow> bool \<Rightarrow> long_row list" where
  \<comment> \<open>the rows of the player on one side of a match that come from the earlier matches, in
      frame order; when both sides of the match name the same player, the first side's row
      of the match itself precedes the second side's\<close>
  "past_rows prior m side =
     filter (\<lambda>x. player x = player (half side m)) (sort_long (expand_long prior)) @
     (if \<not> side \<and> player_1 m = player_2 m then [first_half m] else [])"

definition pre_match_row :: "config \<Rightarrow> match list \<Rightarrow> match \<Rightarrow> wide_row" where
  \<comment> \<open>the wide row of a match from the matches before it\<close>
  "pre_match_row cfg prior m =
     \<lparr>row = m,
      elo_cols = fst (elo_step cfg m (final_state (elo_step cfg) elo_init prior)),
      h2h_cols = h2h_read m (final_state h2h_step h2h_init prior),
      p1 = snapshot_of cfg (past_rows prior m True) (first_half m),
      p2 = snapshot_of cfg (past_rows prior m False) (second_half m)\<rparr>"

definition features_of :: "wide_row \<Rightarrow> elo_row \<times> h2h_row \<times> rolled \<times> rolled" where
  \<comment> \<open>the numeric features of a wide row: everything but the source row\<close>
  "features_of w = (elo_cols w, h2h_cols w, p1 w, p2 w)"

definition chronological_frame :: "match list \<Rightarrow> bool" where
  \<comment> \<open>what \<^verbatim>\<open>preprocess\<close> hands to the stateful loops: dates in ascending order and
      \<^verbatim>\<open>match_id\<close> equal to the position\<close>
  "chronological_frame df =
     (sorted (map (\<lambda>m. ordinal (date m)) df) \<and> map match_id df = [0..<length df])"



definition stable_argsort :: "int list \<Rightarrow> nat list" where
  \<comment> \<open>an index sort that keeps equal keys in input order\<close>
  "stable_argsort ks = sort_key (\<lambda>i. ks ! i) [0..<length ks]"


definition missing_required :: "string list \<Rightarrow> string list" where
  \<comment> \<open>\<^verbatim>\<open>sorted(missing)\<close> for the column names of a table\<close>
  "missing_required cols = filter (\<lambda>c. c \<notin> set (map rename_column cols)) required"

section \<open>Example data\<close>

definition example_match :: "nat \<Rightarrow> int \<Rightarrow> int \<Rightarrow> string \<Rightarrow> string \<Rightarrow> string \<Rightarrow> match" where
  \<comment> \<open>a hard-court match with its id, year, day ordinal, the two players and the winner\<close>
  "example_match i yr day a b w =
     \<lparr>match_id = i, date = \<lparr>year = yr, ordinal = day\<rparr>, player_1 = a, player_2 = b,
      winner = Some w, surface = Some ''Hard'', score = Some ''6-4 6-3'',
      rank_1 = Some 10, rank_2 = Some 20, pts_1 = Some 3000, pts_2 = Some 2000,
      odd_1 = Some (3 / 2), odd_2 = Some (5 / 2), rank_diff = Some (- 10), pts_diff = Some 1000,
      odd_diff = Some (- 1),
      info = \<lparr>tournament = Some ''Doha'', court = Some ''Outdoor'', round_col = Some ''1st Round'',
              best_of = Some ''3''\<rparr>\<rparr>"


definition three_meetings :: "match list" where
  "three_meetings =
     [example_match 0 2010 733924 ''A'' ''B'' ''A'',
      example_match 1 2010 733931 ''A'' ''B'' ''B'',
      example_match 2 2010 733938 ''A'' ''B'' ''A'']"

definition stray_winner :: match where
  "stray_winner = example_match 0 2010 733924 ''A'' ''B'' ''C''"

definition raw_example :: "int \<Rightarrow> int \<Rightarrow> string \<Rightarrow> string \<Rightarrow> string \<Rightarrow> raw_row" where
  "raw_example yr day a b w =
     \<lparr>match_id = (), date = Some \<lparr>year = yr, ordinal = day\<rparr>, player_1 = Some a, player_2 = Some b,
      winner = Some w, surface = Some ''Hard'', score = Some ''6-4 6-3'',
      rank_1 = Some 10, rank_2 = Some 20, pts_1 = Some 3000, pts_2 = Some 2000,
      odd_1 = Some (3 / 2), odd_2 = Some (5 / 2), rank_diff = None, pts_diff = None,
      odd_diff = None,
      info = \<lparr>tournament = Some ''Doha'', court = Some ''Outdoor'', round_col = Some ''1st Round'',
              best_of = Some ''3''\<rparr>\<rparr>"

definition no_winner_file :: table where
  "no_winner_file =
     \<lparr>columns = [''Date'', '' Player_1'', ''Player_2'', ''Surface'', ''Score''],
      rows = [raw_example 2010 733924 ''A'' ''B'' ''A'']\<rparr>"




definition rank_stream :: "match list" where
  "rank_stream =
     [(example_match 0 2010 733924 ''A'' ''B'' ''A'')\<lparr>rank_1 := Some 10\<rparr>,
      (example_match 1 2010 733931 ''A'' ''C'' ''C'')\<lparr>rank_1 := Some 20\<rparr>,
      (example_match 2 2010 733938 ''A'' ''D'' ''A'')\<lparr>rank_1 := Some 40\<rparr>,
      (example_match 3 2010 733945 ''A'' ''E'' ''A'')\<lparr>rank_1 := Some 80\<rparr>]"

definition self_match_stream :: "string \<Rightarrow> match list" where
  \<comment> \<open>three matches of A and then a match of A against A with the given score\<close>
  "self_match_stream sc =
     [example_match 0 2010 733924 ''A'' ''B'' ''A'',
      example_match 1 2010 733931 ''A'' ''C'' ''A'',
      example_match 2 2010 733938 ''A'' ''D'' ''A'',
      (example_match 3 2010 733945 ''A'' ''A'' ''A'')\<lparr>score := Some sc\<rparr>]"

definition losing_run :: "match list" where
  \<comment> \<open>three matches that A loses and then a match of A against A\<close>
  "losing_run =
     [example_match 0 2010 733924 ''A'' ''B'' ''B'',
      example_match 1 2010 733931 ''A'' ''C'' ''C'',
      example_match 2 2010 733938 ''A'' ''D'' ''D'',
      example_match 3 2010 733945 ''A'' ''A'' ''A'']"

section \<open>Properties of the loops\<close>

lemma length_run_loop: "length (run_loop step st xs) = length xs"
  by (induction xs arbitrary: st) simp_all

lemma run_loop_take: "run_loop step st (take n xs) = take n (run_loop step st xs)"
proof (induction xs arbitrary: st n)
  case Nil
  then show ?case by simp
next
  case (Cons x xs)
  then show ?case by (cases n) simp_all
qed

lemma run_loop_nth:
  "i < length xs \<Longrightarrow>
   run_loop step st xs ! i = fst (step (xs ! i) (final_state step st (take i xs)))"
proof (induction xs arbitrary: st i)
  case Nil
  then show ?case by simp
next
  case (Cons x xs)
  then show ?case by (cases i) simp_all
qed



section \<open>The score decoder\<close>

lemma parse_score_non_string: "parse_score None = score_zero"
  by (simp add: parse_score_def)

lemma parse_score_walkover:
  "strip raw = [] \<or> contains ''w/o'' (lower (strip raw)) \<or> contains ''walkover'' (lower (strip raw))
   \<Longrightarrow> parse_score (Some raw) = score_zero"
  by (auto simp: parse_score_def Let_def)

lemma digit_val_nonneg: "is_digit c \<Longrightarrow> 0 \<le> digit_val c"
  by (auto simp: is_digit_def digit_val_def)

lemma foldl_digits_nonneg:
  "0 \<le> n \<Longrightarrow> \<forall>c \<in> set s. is_digit c \<Longrightarrow> 0 \<le> foldl (\<lambda>n c. 10 * n + digit_val c) n s"
proof (induction s arbitrary: n)
  case Nil
  then show ?case by simp
next
  case (Cons c s)
  then have "0 \<le> 10 * n + digit_val c" using digit_val_nonneg [of c] by simp
  then show ?case using Cons by simp
qed

lemma int_of_digits_nonneg: "\<forall>c \<in> set s. is_digit c \<Longrightarrow> 0 \<le> int_of_digits s"
  by (simp add: int_of_digits_def foldl_digits_nonneg)

lemma match_at_digits:
  assumes "match_at s = Some (l, r, rest)"
  shows "(\<forall>c \<in> set l. is_digit c) \<and> (\<forall>c \<in> set r. is_digit c)"
proof -
  from assms have "l = takeWhile is_digit s"
    by (auto simp: match_at_def Let_def split: if_splits list.splits)
  moreover from assms obtain after where "r = takeWhile is_digit after"
    by (auto simp: match_at_def Let_def split: if_splits list.splits)
  ultimately show ?thesis by (auto dest: set_takeWhileD)
qed

lemma findall_digits:
  "\<forall>p \<in> set (findall s). (\<forall>c \<in> set (fst p). is_digit c) \<and> (\<forall>c \<in> set (snd p). is_digit c)"
proof (induction s rule: findall.induct)
  case (1 s)
  show ?case
  proof (cases "s = []")
    case True
    then show ?thesis by (simp add: findall.simps)
  next
    case False
    show ?thesis
    proof (cases "match_at s")
      case None
      have "findall s = findall (tl s)"
        using False None by (subst findall.simps) simp
      then show ?thesis using 1(1) [OF False None] by simp
    next
      case (Some t)
      then obtain l r rest where m: "match_at s = Some (l, r, rest)"
        by (cases t) auto
      have ih: "\<forall>p \<in> set (findall rest).
          (\<forall>c \<in> set (fst p). is_digit c) \<and> (\<forall>c \<in> set (snd p). is_digit c)"
        by (rule 1(2) [OF False m refl refl])
      have "findall s = (l, r) # findall rest"
        using False m by (subst findall.simps) simp
      then show ?thesis using ih match_at_digits [OF m] by simp
    qed
  qed
qed

lemma score_step_nonneg:
  assumes "score_nonneg a" and "0 \<le> int_of_digits (fst p)" and "0 \<le> int_of_digits (snd p)"
  shows "score_nonneg (score_step a p)"
  using assms by (simp add: score_nonneg_def score_step_def Let_def)

lemma foldl_score_nonneg:
  "score_nonneg a \<Longrightarrow>
   \<forall>p \<in> set ps. 0 \<le> int_of_digits (fst p) \<and> 0 \<le> int_of_digits (snd p) \<Longrightarrow>
   score_nonneg (foldl score_step a ps)"
proof (induction ps arbitrary: a)
  case Nil
  then show ?case by simp
next
  case (Cons p ps)
  then have "score_nonneg (score_step a p)" by (simp add: score_step_nonneg)
  then show ?case using Cons by simp
qed

lemma parse_score_nonneg: "score_nonneg (parse_score v)"
proof -
  have z: "score_nonneg score_zero" by (simp add: score_nonneg_def score_zero_def)
  have f: "score_nonneg (foldl score_step score_zero (findall s))" for s
    using findall_digits [of s] by (intro foldl_score_nonneg z) (simp add: int_of_digits_nonneg)
  show ?thesis
    using z f by (simp add: parse_score_def Let_def split: option.splits)
qed

text \<open>
  C8. The decoder is total and returns five non-negative integers, and a value that is not a
  string, an empty token and a walkover token give five zeros, as the lemmas above show. The
  specification and the docstring of \<^verbatim>\<open>parse_score\<close> also say that a retirement token yields five
  zeros; the decoder only looks for \<^verbatim>\<open>w/o\<close> and \<^verbatim>\<open>walkover\<close>, and on the retirement
  \<^verbatim>\<open>6-3 2-1 ret.\<close> it returns 8 and 4 games and 2 sets to 0.
\<close>

theorem parse_score_retirement:
  "parse_score (Some ''6-3 2-1 ret.'') =
     \<lparr>games_1 = 8, games_2 = 4, sets_1 = 2, sets_2 = 0, tie_breaks = 0\<rparr>"
  by code_simp

section \<open>Annual decay\<close>












section \<open>Head-to-head advantage\<close>

lemma snd_h2h_step: "snd (h2h_step m st) = h2h_record m st"
  by (simp add: h2h_step_def)

lemma fst_h2h_step: "fst (h2h_step m st) = h2h_read m st"
  by (simp add: h2h_step_def)

lemma wins_over_single:
  "wins_over a b [m] =
     (if ((player_1 m = a \<and> player_2 m = b) \<or> (player_1 m = b \<and> player_2 m = a))
         \<and> winner m = Some a then 1 else 0)"
  by (simp add: wins_over_def)

lemma h2h_record_wins:
  assumes "valid_winner m"
  shows "get_wins (h2h_wins (h2h_record m st)) (a, b) =
         get_wins (h2h_wins st) (a, b) + int (wins_over a b [m])"
proof (cases "winner m = Some (player_1 m)")
  case True
  then show ?thesis
    by (simp add: h2h_record_def Let_def get_wins_def wins_over_single) blast
next
  case False
  with assms have w: "winner m = Some (player_2 m)" "player_2 m \<noteq> player_1 m"
    by (auto simp: valid_winner_def)
  show ?thesis using False w
    by (simp add: h2h_record_def Let_def get_wins_def wins_over_single) blast
qed

lemma wins_over_Cons: "wins_over a b (m # ms) = wins_over a b [m] + wins_over a b ms"
  by (simp add: wins_over_def)

lemma h2h_wins_final:
  "\<forall>m \<in> set ms. valid_winner m \<Longrightarrow>
   get_wins (h2h_wins (final_state h2h_step st ms)) (a, b) =
     get_wins (h2h_wins st) (a, b) + int (wins_over a b ms)"
proof (induction ms arbitrary: st)
  case Nil
  then show ?case by (simp add: wins_over_def)
next
  case (Cons m ms)
  have "get_wins (h2h_wins (final_state h2h_step st (m # ms))) (a, b) =
        get_wins (h2h_wins (h2h_record m st)) (a, b) + int (wins_over a b ms)"
    using Cons by (simp add: snd_h2h_step)
  also have "\<dots> = get_wins (h2h_wins st) (a, b) + int (wins_over a b [m]) + int (wins_over a b ms)"
    using Cons.prems by (simp add: h2h_record_wins)
  finally show ?case by (simp add: wins_over_Cons [of a b m ms])
qed


text \<open>
  C7. When the winner of every earlier match is one of its two players, the advantage read
  for a match is \<open>(w - l) / (w + l)\<close>, for \<open>w\<close> the earlier wins of player 1 over player 2
  and \<open>l\<close> those of player 2 over player 1; it is 0 when they never met, 1 after one win
  of player 1 and none of player 2, and 0 after one win each.
\<close>

theorem h2h_advantage_formula:
  assumes "i < length df" and "list_all valid_winner (take i df)"
  shows "let a = player_1 (df ! i); b = player_2 (df ! i);
             w = wins_over a b (take i df); l = wins_over b a (take i df);
             adv = h2h_advantage (compute_head_to_head df ! i)
         in adv = (if w + l = 0 then 0 else (real w - real l) / (real w + real l)) \<and>
            (w + l = 0 \<longrightarrow> adv = 0) \<and>
            (w = 1 \<and> l = 0 \<longrightarrow> adv = 1) \<and>
            (w = 1 \<and> l = 1 \<longrightarrow> adv = 0)"
proof -
  let ?st = "final_state h2h_step h2h_init (take i df)"
  have v: "\<forall>m \<in> set (take i df). valid_winner m"
    using assms(2) by (simp add: list_all_iff)
  have w: "get_wins (h2h_wins ?st) (a, b) = int (wins_over a b (take i df))" for a b
    using h2h_wins_final [OF v, of h2h_init a b] by (simp add: h2h_init_def get_wins_def)
  have "compute_head_to_head df ! i = h2h_read (df ! i) ?st"
    using assms(1) by (simp add: compute_head_to_head_def run_loop_nth fst_h2h_step)
  then show ?thesis
    by (simp add: h2h_read_def Let_def w)
qed

theorem h2h_advantage_formula_witness:
  "2 < length three_meetings \<and> list_all valid_winner (take 2 three_meetings) \<and>
   wins_over ''A'' ''B'' (take 2 three_meetings) = 1 \<and>
   wins_over ''B'' ''A'' (take 2 three_meetings) = 1 \<and>
   h2h_advantage (compute_head_to_head three_meetings ! 2) = 0"
  using h2h_advantage_formula [of 2 three_meetings]
  by (simp add: Let_def three_meetings_def example_match_def valid_winner_def wins_over_def)

section \<open>A winner that is neither player\<close>

text \<open>
  C10. A match whose winner is neither player 1 nor player 2 has the realised outcome 0 in
  the rating engine: after the decay step the engine returns the four ratings it read, takes
  \<open>K * expected\<close> from the global rating of player 1 and adds \<open>K * expected\<close> to that of
  player 2, and does the same to the two surface ratings with the surface constant and the
  surface expectation. The head-to-head tracker takes the branch of a win of player 2, the
  label is 0, and the match enters both players' histories as a loss. When the two players
  are distinct, both stateful steps are those of the same match won by player 2.
\<close>

theorem unknown_winner_counts_for_player_2:
  assumes "winner m \<noteq> Some (player_1 m)" and "winner m \<noteq> Some (player_2 m)"
  shows "outcome_of m = 0 \<and>
         (let d = elo_decay_step cfg (year (date m)) st;
              r1 = get_rating (ratings d) (player_1 m);
              r2 = get_rating (ratings d) (player_2 m);
              s1 = get_rating (surface_ratings d) (player_1 m, surface m);
              s2 = get_rating (surface_ratings d) (player_2 m, surface m)
          in elo_step cfg m st =
               (\<lparr>elo_p1 = r1, elo_p2 = r2, surface_elo_p1 = s1, surface_elo_p2 = s2\<rparr>,
                d\<lparr>ratings :=
                    ((ratings d)(player_1 m \<mapsto> r1 - elo_k cfg * expected_score r1 r2))
                      (player_2 m \<mapsto> r2 + elo_k cfg * expected_score r1 r2),
                  surface_ratings :=
                    ((surface_ratings d)
                       ((player_1 m, surface m) \<mapsto> s1 - surface_elo_k cfg * expected_score s1 s2))
                      ((player_2 m, surface m) \<mapsto> s2 + surface_elo_k cfg * expected_score s1 s2)\<rparr>)) \<and>
         h2h_record m hs =
           \<lparr>h2h_wins = (h2h_wins hs)((player_2 m, player_1 m) \<mapsto>
                          get_wins (h2h_wins hs) (player_2 m, player_1 m) + 1),
            last_winner = ((last_winner hs)((player_1 m, player_2 m) \<mapsto> - 1))
                            ((player_2 m, player_1 m) \<mapsto> 1)\<rparr> \<and>
         y_label m = 0 \<and>
         won (first_half m) = 0 \<and> won (second_half m) = 0 \<and>
         (player_1 m \<noteq> player_2 m \<longrightarrow>
            elo_step cfg m st = elo_step cfg (m\<lparr>winner := Some (player_2 m)\<rparr>) st \<and>
            h2h_step m hs = h2h_step (m\<lparr>winner := Some (player_2 m)\<rparr>) hs)"
proof -
  have o: "outcome_of m = 0" using assms by (simp add: outcome_of_def)
  have e: "let d = elo_decay_step cfg (year (date m)) st;
              r1 = get_rating (ratings d) (player_1 m);
              r2 = get_rating (ratings d) (player_2 m);
              s1 = get_rating (surface_ratings d) (player_1 m, surface m);
              s2 = get_rating (surface_ratings d) (player_2 m, surface m)
          in elo_step cfg m st =
               (\<lparr>elo_p1 = r1, elo_p2 = r2, surface_elo_p1 = s1, surface_elo_p2 = s2\<rparr>,
                d\<lparr>ratings :=
                    ((ratings d)(player_1 m \<mapsto> r1 - elo_k cfg * expected_score r1 r2))
                      (player_2 m \<mapsto> r2 + elo_k cfg * expected_score r1 r2),
                  surface_ratings :=
                    ((surface_ratings d)
                       ((player_1 m, surface m) \<mapsto> s1 - surface_elo_k cfg * expected_score s1 s2))
                      ((player_2 m, surface m) \<mapsto> s2 + surface_elo_k cfg * expected_score s1 s2)\<rparr>)"
    by (simp add: elo_step_def elo_update_def Let_def o)
  have r: "h2h_record m hs =
           \<lparr>h2h_wins = (h2h_wins hs)((player_2 m, player_1 m) \<mapsto>
                          get_wins (h2h_wins hs) (player_2 m, player_1 m) + 1),
            last_winner = ((last_winner hs)((player_1 m, player_2 m) \<mapsto> - 1))
                            ((player_2 m, player_1 m) \<mapsto> 1)\<rparr> \<and>
         y_label m = 0 \<and>
         won (first_half m) = 0 \<and> won (second_half m) = 0 \<and>
         (player_1 m \<noteq> player_2 m \<longrightarrow>
            elo_step cfg m st = elo_step cfg (m\<lparr>winner := Some (player_2 m)\<rparr>) st \<and>
            h2h_step m hs = h2h_step (m\<lparr>winner := Some (player_2 m)\<rparr>) hs)"
    using assms
    by (simp add: outcome_of_def h2h_record_def y_label_def first_half_def second_half_def
        elo_step_def elo_update_def h2h_step_def h2h_read_def Let_def)
  show ?thesis by (rule conjI [OF o conjI [OF e r]])
qed

theorem unknown_winner_counts_for_player_2_witness:
  "winner stray_winner \<noteq> Some (player_1 stray_winner) \<and>
   winner stray_winner \<noteq> Some (player_2 stray_winner) \<and>
   player_1 stray_winner \<noteq> player_2 stray_winner \<and>
   y_label stray_winner = 0 \<and>
   fst (elo_step default_config stray_winner elo_init) =
     \<lparr>elo_p1 = 1500, elo_p2 = 1500, surface_elo_p1 = 1500, surface_elo_p2 = 1500\<rparr> \<and>
   ratings (snd (elo_step default_config stray_winner elo_init)) =
     [''A'' \<mapsto> 1484, ''B'' \<mapsto> 1516] \<and>
   surface_ratings (snd (elo_step default_config stray_winner elo_init)) =
     [(''A'', Some ''Hard'') \<mapsto> 1488, (''B'', Some ''Hard'') \<mapsto> 1512] \<and>
   elo_step default_config stray_winner elo_init =
     elo_step default_config (example_match 0 2010 733924 ''A'' ''B'' ''B'') elo_init \<and>
   h2h_step stray_winner h2h_init = h2h_step (example_match 0 2010 733924 ''A'' ''B'' ''B'') h2h_init"
proof -
  have a: "winner stray_winner \<noteq> Some (player_1 stray_winner)"
    and b: "winner stray_winner \<noteq> Some (player_2 stray_winner)"
    and d: "player_1 stray_winner \<noteq> player_2 stray_winner"
    by (simp_all add: stray_winner_def example_match_def)
  note t = unknown_winner_counts_for_player_2 [OF a b, of default_config elo_init h2h_init]
  have e: "elo_step default_config stray_winner elo_init =
     (\<lparr>elo_p1 = 1500, elo_p2 = 1500, surface_elo_p1 = 1500, surface_elo_p2 = 1500\<rparr>,
      \<lparr>ratings = [''A'' \<mapsto> 1484, ''B'' \<mapsto> 1516],
       surface_ratings = [(''A'', Some ''Hard'') \<mapsto> 1488, (''B'', Some ''Hard'') \<mapsto> 1512],
       last_year = Some 2010\<rparr>)"
    using conjunct1 [OF conjunct2 [OF t]]
    by (simp add: stray_winner_def example_match_def Let_def elo_decay_step_def elo_init_def
        get_rating_def expected_score_def default_config_def)
  have y: "y_label stray_winner = 0" using t by blast
  have s: "elo_step default_config stray_winner elo_init =
             elo_step default_config (example_match 0 2010 733924 ''A'' ''B'' ''B'') elo_init \<and>
           h2h_step stray_winner h2h_init =
             h2h_step (example_match 0 2010 733924 ''A'' ''B'' ''B'') h2h_init"
    using t d by (simp add: stray_winner_def example_match_def)
  have f: "fst (elo_step default_config stray_winner elo_init) =
     \<lparr>elo_p1 = 1500, elo_p2 = 1500, surface_elo_p1 = 1500, surface_elo_p2 = 1500\<rparr>"
    by (simp add: e)
  have r: "ratings (snd (elo_step default_config stray_winner elo_init)) =
     [''A'' \<mapsto> 1484, ''B'' \<mapsto> 1516]"
    by (simp add: e)
  have q: "surface_ratings (snd (elo_step default_config stray_winner elo_init)) =
     [(''A'', Some ''Hard'') \<mapsto> 1488, (''B'', Some ''Hard'') \<mapsto> 1512]"
    by (simp add: e)
  show ?thesis
    by (rule conjI [OF a conjI [OF b conjI [OF d conjI [OF y conjI [OF f conjI [OF r conjI [OF q s]]]]]]])
qed

section \<open>Rolling windows and trends\<close>

lemma filter_split_at:
  assumes "j < length s" and "P (s ! j)"
  shows "filter P s = filter P (take j s) @ s ! j # filter P (drop (Suc j) s)"
proof -
  have "s = take j s @ s ! j # drop (Suc j) s"
    using assms(1) by (simp add: id_take_nth_drop)
  then have "filter P s = filter P (take j s @ s ! j # drop (Suc j) s)" by simp
  then show ?thesis using assms(2) by simp
qed

lemma group_apply_nth:
  assumes "j < length s" and "key (s ! j) = Some k"
  shows "group_apply key f s ! j =
           f (filter (\<lambda>r. key r = Some k) (take j s) @ s ! j # filter (\<lambda>r. key r = Some k) (drop (Suc j) s))
             ! length (filter (\<lambda>r. key r = Some k) (take j s))"
  using assms filter_split_at [of j s "\<lambda>r. key r = Some k"]
  by (simp add: group_apply_def)

lemma group_apply_nth_None:
  assumes "j < length s" and "key (s ! j) = None"
  shows "group_apply key f s ! j = None"
  using assms by (simp add: group_apply_def)

lemma shift_nth: "n < length xs \<Longrightarrow> shift k xs ! n = (if n < k then None else xs ! (n - k))"
  by (simp add: shift_def nth_append)

lemma take_shift_1: "n < length xs \<Longrightarrow> take (Suc n) (shift 1 xs) = None # take n xs"
  by (simp add: shift_def)

lemma map_filter_id_Some: "List.map_filter id (map Some vs) = vs"
  by (induction vs) (simp_all add: List.map_filter_simps)

lemma window_after_shift:
  "List.map_filter id (drop (Suc n - w) (None # map Some vs)) = drop (length vs - w) vs"
  if "length vs = n"
proof (cases "Suc n - w")
  case 0
  then have "length vs - w = 0" using that by simp
  with 0 show ?thesis by (simp add: List.map_filter_simps map_filter_id_Some)
next
  case (Suc d)
  then have "d = length vs - w" using that by simp
  with Suc show ?thesis by (simp add: drop_map map_filter_id_Some)
qed

lemma rolling_at_prior:
  assumes "m > 0"
  shows "rolling (map Some vs @ x # rest) w m ! length vs = trailing_mean w m vs"
proof -
  let ?xs = "map Some vs @ x # rest"
  have n: "length vs < length ?xs" by simp
  have t: "take (Suc (length vs)) (shift 1 ?xs) = None # map Some vs"
    using take_shift_1 [OF n] by simp
  have "rolling ?xs w m ! length vs = window_mean w m (shift 1 ?xs) (length vs)"
    by (simp add: rolling_def rolling_mean_def shift_def nth_append del: upt_Suc)
  also have "\<dots> = trailing_mean w m vs"
    using assms unfolding window_mean_def t trailing_mean_def
    by (simp add: window_after_shift Let_def) 
  finally show ?thesis .
qed

lemma col_int_split: "col_int c (a @ r # b) = map Some (map (\<lambda>r. real_of_int (c r)) a) @ Some (real_of_int (c r)) # col_int c b"
  by (simp add: col_int_def)

lemma rolling_group:
  assumes "m > 0"
  shows "rolling (col_int c (a @ r # b)) w m ! length a = trailing_mean w m (map (\<lambda>r. real_of_int (c r)) a)"
  using rolling_at_prior [OF assms, of "map (\<lambda>r. real_of_int (c r)) a"]
  by (simp add: col_int_split)


lemma trend_at_prior:
  "trend (a @ x # rest) ! length a =
     (if length a < 2 then None else sub_opt (a ! (length a - 1)) (a ! (length a - 2)))"
proof -
  have n: "length a < length (a @ x # rest)" by simp
  have l: "length (shift 1 (a @ x # rest)) = length (a @ x # rest)"
          "length (shift 2 (a @ x # rest)) = length (a @ x # rest)"
    by (simp_all add: shift_def)
  have "trend (a @ x # rest) ! length a =
          sub_opt (shift 1 (a @ x # rest) ! length a) (shift 2 (a @ x # rest) ! length a)"
    unfolding trend_def using n l by (simp del: length_append)
  also have "\<dots> = (if length a < 2 then None else sub_opt (a ! (length a - 1)) (a ! (length a - 2)))"
    unfolding shift_nth [OF n] by (auto simp: sub_opt_def nth_append split: option.splits)
  finally show ?thesis .
qed

lemma trend_group:
  "trend (map c (a @ r # b)) ! length a =
     (let h = map c a; n = length h in
      if n < 2 then None else sub_opt (h ! (n - 1)) (h ! (n - 2)))"
  using trend_at_prior [of "map c a" "c r" "map c b"] by (simp add: Let_def)

lemma group_by_player_nth:
  assumes "j < length s"
  shows "group_apply by_player f s ! j =
           f (history s j @ s ! j # filter (\<lambda>r. player r = player (s ! j)) (drop (Suc j) s))
             ! length (history s j)"
  using group_apply_nth [of j s by_player "player (s ! j)" f] assms
  by (simp add: by_player_def history_def)

lemma group_by_player_surface_nth:
  assumes "j < length s" and "l_surface (s ! j) \<noteq> None"
  shows "group_apply by_player_surface f s ! j =
           f (surface_history s j @ s ! j #
                filter (\<lambda>r. player r = player (s ! j) \<and> l_surface r = l_surface (s ! j)) (drop (Suc j) s))
             ! length (surface_history s j)"
proof -
  from assms(2) obtain sf where sf: "l_surface (s ! j) = Some sf" by auto
  have k: "by_player_surface (s ! j) = Some (player (s ! j), sf)"
    by (simp add: by_player_surface_def sf)
  have e: "(\<lambda>r. by_player_surface r = Some (player (s ! j), sf)) =
           (\<lambda>r. player r = player (s ! j) \<and> l_surface r = l_surface (s ! j))"
    by (auto simp: by_player_surface_def sf)
  show ?thesis
    using group_apply_nth [of j s by_player_surface "(player (s ! j), sf)" f, OF assms(1) k]
    unfolding e by (simp add: surface_history_def)
qed

lemma diff_days_group:
  "diff_days (map c (a @ r # b)) ! length a =
     (if a = [] then None else Some (real_of_int (c r - c (last a))))"
proof -
  have "length a < length (map c (a @ r # b))" by simp
  then have "diff_days (map c (a @ r # b)) ! length a =
      (if length a = 0 then None
       else Some (real_of_int (map c (a @ r # b) ! length a - map c (a @ r # b) ! (length a - 1))))"
    unfolding diff_days_def by (simp del: length_map map_append)
  also have "\<dots> = (if a = [] then None else Some (real_of_int (c r - c (last a))))"
    by (cases a rule: rev_cases) (simp_all add: nth_append)
  finally show ?thesis .
qed

lemma surface_history_filter:
  "l_surface (s ! j) = Some sf \<Longrightarrow>
   surface_history s j = filter (\<lambda>x. l_surface x = Some sf) (history s j)"
  by (auto simp: surface_history_def history_def intro: filter_cong)

lemma rolled_at_snapshot:
  assumes "j < length s"
  shows "rolled_at cfg s j = snapshot_of cfg (history s j) (s ! j)"
proof -
  have sf: "group_apply by_player_surface (\<lambda>g. rolling (col_int won g) ws 2) s ! j =
        (case l_surface (s ! j) of
            None \<Rightarrow> None
          | Some sf \<Rightarrow>
              trailing_mean ws 2
                (map (\<lambda>x. real_of_int (won x)) (filter (\<lambda>x. l_surface x = Some sf) (history s j))))" for ws
  proof (cases "l_surface (s ! j)")
    case None
    then have "by_player_surface (s ! j) = None" by (simp add: by_player_surface_def)
    from group_apply_nth_None [of j s by_player_surface] assms this None show ?thesis by simp
  next
    case (Some a)
    then have n: "l_surface (s ! j) \<noteq> None" by simp
    show ?thesis
      by (simp only: group_by_player_surface_nth [OF assms n] rolling_group [of 2, simplified]
          surface_history_filter [OF Some] Some option.case)
  qed
  show ?thesis
    unfolding rolled_at_def snapshot_of_def Let_def
    by (simp only: group_by_player_nth [OF assms] rolling_group [of 3, simplified] trend_group
        diff_days_group sf Let_def)
qed


lemma add_rolling_features_Inr:
  assumes "add_rolling_features long_df cfg = Inr frame"
  shows "frame = map (\<lambda>j. (sort_long long_df ! j, rolled_at cfg (sort_long long_df) j))
                   [0..<length (sort_long long_df)]"
    and "sort_long long_df \<noteq> [] \<longrightarrow> 3 \<le> rolling_matches cfg"
    and "(\<exists>r \<in> set (sort_long long_df). l_surface r \<noteq> None) \<longrightarrow> 2 \<le> rolling_surface_matches cfg"
  using assms unfolding add_rolling_features_def Let_def
  by (auto split: if_splits)

lemma frame_rows:
  assumes "add_rolling_features long_df cfg = Inr frame"
  shows "map fst frame = sort_long long_df"
  unfolding add_rolling_features_Inr(1) [OF assms]
  by (simp add: comp_def map_nth)

lemma frame_cols:
  assumes "add_rolling_features long_df cfg = Inr frame" and "j < length frame"
  shows "snd (frame ! j) = snapshot_of cfg (history (map fst frame) j) (map fst frame ! j)"
proof -
  have l: "length frame = length (sort_long long_df)"
    using arg_cong [OF frame_rows [OF assms(1)], of length] by simp
  then have j: "j < length (sort_long long_df)" using assms(2) by simp
  have "snd (frame ! j) = rolled_at cfg (sort_long long_df) j"
    using j by (simp add: add_rolling_features_Inr(1) [OF assms(1)])
  then show ?thesis
    unfolding frame_rows [OF assms(1)] by (simp only: rolled_at_snapshot [OF j])
qed

lemma history_not_later:
  assumes "j < length (sort_long long_df)"
  shows "list_all (\<lambda>r. long_key r \<le> long_key (sort_long long_df ! j)) (history (sort_long long_df) j)"
proof -
  let ?s = "sort_long long_df"
  have s: "sorted (map long_key ?s)" by (simp add: sort_long_def)
  have "\<forall>r \<in> set (take j ?s). long_key r \<le> long_key (?s ! j)"
  proof
    fix r assume "r \<in> set (take j ?s)"
    then obtain k where k: "k < j" "r = ?s ! k"
      using assms by (auto simp: in_set_conv_nth)
    from sorted_nth_mono [OF s, of k j] k assms show "long_key r \<le> long_key (?s ! j)"
      by simp
  qed
  then show ?thesis by (simp add: history_def list_all_iff)
qed

lemma trailing_mean_few: "length vs < m \<Longrightarrow> trailing_mean w m vs = None"
  by (simp add: trailing_mean_def Let_def)

lemma trailing_mean_exact:
  "0 < m \<Longrightarrow> m \<le> w \<Longrightarrow> length vs = m \<Longrightarrow> trailing_mean w m vs = Some (sum_list vs / real m)"
  by (simp add: trailing_mean_def Let_def)

lemma add_rolling_features_ok:
  assumes "3 \<le> rolling_matches cfg" and "2 \<le> rolling_surface_matches cfg"
  shows "\<exists>frame. add_rolling_features long_df cfg = Inr frame"
  using assms unfolding add_rolling_features_def Let_def by simp

lemma rank_stream_frame:
  "\<exists>frame. add_rolling_features (expand_long rank_stream) default_config = Inr frame"
  by (rule add_rolling_features_ok) (simp_all add: default_config_def)

text \<open>
  For every row of the frame that \<^verbatim>\<open>add_rolling_features\<close> returns, the form is the
  trailing mean, in the specification's sense, of the outcome indicators of the same player's
  rows before it in the frame, none of which is later in (date, match id) than the row itself,
  over a window of \<^verbatim>\<open>rolling_matches\<close> (10 by default) with a minimum of 3; for a row with
  a surface, the surface form is the same over the player's earlier rows on that surface, with
  a window of \<^verbatim>\<open>rolling_surface_matches\<close> (6 by default) and a minimum of 2. With fewer
  prior entries than the minimum the result is null; with exactly the minimum it is their
  arithmetic mean.
\<close>

theorem trailing_form:
  assumes "add_rolling_features long_df cfg = Inr frame" and "j < length frame"
  shows "let s = map fst frame;
             prior = map (\<lambda>r. real_of_int (won r)) (history s j);
             on_surface = map (\<lambda>r. real_of_int (won r)) (surface_history s j)
         in s = sort_long long_df \<and>
            list_all (\<lambda>r. long_key r \<le> long_key (s ! j)) (history s j) \<and>
            3 \<le> rolling_matches cfg \<and>
            form_win_rate (snd (frame ! j)) = trailing_mean (nat (rolling_matches cfg)) 3 prior \<and>
            (length prior < 3 \<longrightarrow> form_win_rate (snd (frame ! j)) = None) \<and>
            (length prior = 3 \<longrightarrow> form_win_rate (snd (frame ! j)) = Some (sum_list prior / 3)) \<and>
            (l_surface (s ! j) \<noteq> None \<longrightarrow>
               2 \<le> rolling_surface_matches cfg \<and>
               surface_form_win_rate (snd (frame ! j)) =
                 trailing_mean (nat (rolling_surface_matches cfg)) 2 on_surface \<and>
               (length on_surface < 2 \<longrightarrow> surface_form_win_rate (snd (frame ! j)) = None) \<and>
               (length on_surface = 2 \<longrightarrow>
                  surface_form_win_rate (snd (frame ! j)) = Some (sum_list on_surface / 2))) \<and>
            rolling_matches default_config = 10 \<and> rolling_surface_matches default_config = 6"
proof -
  let ?s = "map fst frame"
  let ?prior = "map (\<lambda>r. real_of_int (won r)) (history ?s j)"
  let ?on = "map (\<lambda>r. real_of_int (won r)) (surface_history ?s j)"
  have rows: "?s = sort_long long_df" by (rule frame_rows [OF assms(1)])
  have j: "j < length (sort_long long_df)"
    using assms(2) arg_cong [OF rows, of length] by simp
  have ne: "sort_long long_df \<noteq> []" using j by auto
  have order: "list_all (\<lambda>r. long_key r \<le> long_key (?s ! j)) (history ?s j)"
    unfolding rows by (rule history_not_later [OF j])
  have w: "3 \<le> rolling_matches cfg"
    using add_rolling_features_Inr(2) [OF assms(1)] ne by blast
  have form: "form_win_rate (snd (frame ! j)) = trailing_mean (nat (rolling_matches cfg)) 3 ?prior"
    unfolding frame_cols [OF assms] by (simp add: snapshot_of_def Let_def)
  have few: "length ?prior < 3 \<longrightarrow> form_win_rate (snd (frame ! j)) = None"
    unfolding form by (simp add: trailing_mean_few)
  have exact: "length ?prior = 3 \<longrightarrow> form_win_rate (snd (frame ! j)) = Some (sum_list ?prior / 3)"
    unfolding form using w trailing_mean_exact [of 3 "nat (rolling_matches cfg)" ?prior] by simp
  have surf: "l_surface (?s ! j) \<noteq> None \<longrightarrow>
               2 \<le> rolling_surface_matches cfg \<and>
               surface_form_win_rate (snd (frame ! j)) =
                 trailing_mean (nat (rolling_surface_matches cfg)) 2 ?on \<and>
               (length ?on < 2 \<longrightarrow> surface_form_win_rate (snd (frame ! j)) = None) \<and>
               (length ?on = 2 \<longrightarrow>
                  surface_form_win_rate (snd (frame ! j)) = Some (sum_list ?on / 2))"
  proof
    assume a: "l_surface (?s ! j) \<noteq> None"
    then obtain sf where sf: "l_surface (?s ! j) = Some sf" by auto
    have "sort_long long_df ! j \<in> set (sort_long long_df)" using j by (rule nth_mem)
    then have "?s ! j \<in> set (sort_long long_df)" by (simp only: rows)
    then have ws: "2 \<le> rolling_surface_matches cfg"
      using add_rolling_features_Inr(3) [OF assms(1)] a by blast
    have sform: "surface_form_win_rate (snd (frame ! j)) =
                 trailing_mean (nat (rolling_surface_matches cfg)) 2 ?on"
      unfolding frame_cols [OF assms] surface_history_filter [OF sf]
      by (simp add: snapshot_of_def Let_def sf)
    have "length ?on < 2 \<longrightarrow> surface_form_win_rate (snd (frame ! j)) = None"
      unfolding sform by (simp add: trailing_mean_few)
    moreover have "length ?on = 2 \<longrightarrow>
                  surface_form_win_rate (snd (frame ! j)) = Some (sum_list ?on / 2)"
      unfolding sform using ws trailing_mean_exact [of 2 "nat (rolling_surface_matches cfg)" ?on] by simp
    ultimately show "2 \<le> rolling_surface_matches cfg \<and>
               surface_form_win_rate (snd (frame ! j)) =
                 trailing_mean (nat (rolling_surface_matches cfg)) 2 ?on \<and>
               (length ?on < 2 \<longrightarrow> surface_form_win_rate (snd (frame ! j)) = None) \<and>
               (length ?on = 2 \<longrightarrow>
                  surface_form_win_rate (snd (frame ! j)) = Some (sum_list ?on / 2))"
      using ws sform by blast
  qed
  have dflt: "rolling_matches default_config = 10 \<and> rolling_surface_matches default_config = 6"
    by (simp add: default_config_def)
  show ?thesis
    unfolding Let_def
    by (rule conjI [OF rows conjI [OF order conjI [OF w conjI [OF form conjI [OF few
          conjI [OF exact conjI [OF surf dflt]]]]]]])
qed

theorem trailing_form_witness:
  "\<exists>frame. add_rolling_features (expand_long rank_stream) default_config = Inr frame \<and>
     3 < length frame \<and>
     l_surface (map fst frame ! 3) \<noteq> None \<and>
     map won (history (map fst frame) 3) = [1, 0, 1] \<and>
     form_win_rate (snd (frame ! 3)) = Some (2 / 3) \<and>
     map won (history (map fst frame) 2) = [1, 0] \<and>
     form_win_rate (snd (frame ! 2)) = None"
proof -
  from rank_stream_frame obtain frame
    where f: "add_rolling_features (expand_long rank_stream) default_config = Inr frame" by blast
  have rows: "map fst frame = sort_long (expand_long rank_stream)" by (rule frame_rows [OF f])
  have "3 < length (sort_long (expand_long rank_stream))" by code_simp
  then have l: "3 < length frame" "2 < length frame" using arg_cong [OF rows, of length] by simp_all
  have s: "l_surface (map fst frame ! 3) \<noteq> None" unfolding rows by code_simp
  have h3: "map won (history (map fst frame) 3) = [1, 0, 1]" unfolding rows by code_simp
  have h2: "map won (history (map fst frame) 2) = [1, 0]" unfolding rows by code_simp
  have n3: "length (map (\<lambda>r. real_of_int (won r)) (history (map fst frame) 3)) = 3"
    using arg_cong [OF h3, of length] by simp
  have n2: "length (map (\<lambda>r. real_of_int (won r)) (history (map fst frame) 2)) < 3"
    using arg_cong [OF h2, of length] by simp
  have v3: "map (\<lambda>r. real_of_int (won r)) (history (map fst frame) 3) = map real_of_int [1, 0, 1]"
    using arg_cong [OF h3, of "map real_of_int"] by (simp add: comp_def)
  note t3 = trailing_form [OF f l(1), unfolded Let_def]
  note t2 = trailing_form [OF f l(2), unfolded Let_def]
  have "form_win_rate (snd (frame ! 3)) =
          Some (sum_list (map (\<lambda>r. real_of_int (won r)) (history (map fst frame) 3)) / 3)"
    using t3 n3 by blast
  then have f3: "form_win_rate (snd (frame ! 3)) = Some (2 / 3)"
    unfolding v3 by simp
  have f2: "form_win_rate (snd (frame ! 2)) = None"
    using t2 n2 by blast
  show ?thesis
    by (intro exI [of _ frame] conjI) (rule f l(1) s h3 f3 h2 f2)+
qed


text \<open>
  C6. The entries of the window are to be strictly before the current match. The rows before
  a row in the frame are not all of earlier matches: when both sides of a match name the same
  player, the first side's row of that match is in the second side's group and directly
  before it, and \<^verbatim>\<open>shift(1)\<close> moves its outcome into the second side's window. After
  three lost matches of a player, a match of that player against herself has, on the second
  side, the rows of the matches 0, 1, 2 and 3 in its window and a form of \<open>1 / 4\<close>, where
  the three strictly earlier matches give 0.
\<close>

theorem self_match_enters_own_form:
  "\<exists>frame. add_rolling_features (expand_long losing_run) default_config = Inr frame \<and>
     fst (frame ! 4) = second_half (losing_run ! 3) \<and>
     map l_match_id (history (map fst frame) 4) = [0, 1, 2, 3] \<and>
     map won (history (map fst frame) 4) = [0, 0, 0, 1] \<and>
     form_win_rate (snd (frame ! 4)) = Some (1 / 4) \<and>
     trailing_mean 10 3
       (map (\<lambda>r. real_of_int (won r))
          (filter (\<lambda>r. l_match_id r < 3) (history (map fst frame) 4))) = Some 0"
proof -
  have "\<exists>frame. add_rolling_features (expand_long losing_run) default_config = Inr frame"
    by (rule add_rolling_features_ok) (simp_all add: default_config_def)
  then obtain frame
    where f: "add_rolling_features (expand_long losing_run) default_config = Inr frame" by blast
  have rows: "map fst frame = sort_long (expand_long losing_run)" by (rule frame_rows [OF f])
  have len: "4 < length (sort_long (expand_long losing_run))" by code_simp
  then have l: "4 < length frame" using arg_cong [OF rows, of length] by simp
  have "map fst frame ! 4 = second_half (losing_run ! 3)" unfolding rows by code_simp
  then have a: "fst (frame ! 4) = second_half (losing_run ! 3)" using l by simp
  have b: "map l_match_id (history (map fst frame) 4) = [0, 1, 2, 3]" unfolding rows by code_simp
  have c: "map won (history (map fst frame) 4) = [0, 0, 0, 1]" unfolding rows by code_simp
  have "snd (frame ! 4) = rolled_at default_config (sort_long (expand_long losing_run)) 4"
    using len by (simp add: add_rolling_features_Inr(1) [OF f])
  moreover have "form_win_rate (rolled_at default_config (sort_long (expand_long losing_run)) 4) =
      Some (1 / 4)"
    by code_simp
  ultimately have d: "form_win_rate (snd (frame ! 4)) = Some (1 / 4)" by simp
  have e: "trailing_mean 10 3
       (map (\<lambda>r. real_of_int (won r))
          (filter (\<lambda>r. l_match_id r < 3) (history (map fst frame) 4))) = Some 0"
    unfolding rows by code_simp
  show ?thesis
    by (intro exI [of _ frame] conjI) (rule f a b c d e)+
qed




section \<open>Processing order\<close>
















section \<open>Schema errors\<close>

lemma preprocess_missing:
  assumes "c \<in> set required" and "c \<notin> set (map rename_column (columns tbl))"
  shows "preprocess argsort tbl cfg = Inl (KeyError (missing_required (columns tbl)))"
proof -
  have "c \<in> set (missing_required (columns tbl))"
    using assms by (simp add: missing_required_def)
  then have "missing_required (columns tbl) \<noteq> []" by auto
  then show ?thesis
    by (simp add: preprocess_def Let_def missing_required_def)
qed

lemma required_not_diff:
  "c \<in> set required \<Longrightarrow> c \<noteq> ''rank_diff'' \<and> c \<noteq> ''pts_diff'' \<and> c \<noteq> ''odd_diff''"
  by (auto simp: required_def)

lemma rename_diff:
  "rename_column ''rank_diff'' = ''rank_diff''" "rename_column ''pts_diff'' = ''pts_diff''"
  "rename_column ''odd_diff'' = ''odd_diff''"
  by (simp_all add: rename_column_def)

lemma add_diff_required:
  assumes "c \<in> set required" and "name \<in> {''rank_diff'', ''pts_diff'', ''odd_diff''}"
  shows "c \<in> set (map rename_column (columns (add_diff name a b fill tbl))) \<longleftrightarrow>
         c \<in> set (map rename_column (columns tbl))"
  using assms required_not_diff [OF assms(1)] rename_diff
  by (auto simp: add_diff_def)

lemma add_diff_missing:
  assumes "name \<in> {''rank_diff'', ''pts_diff'', ''odd_diff''}"
  shows "missing_required (columns (add_diff name a b fill tbl)) = missing_required (columns tbl)"
  unfolding missing_required_def
  by (rule filter_cong [OF refl]) (use add_diff_required [OF _ assms] in blast)

lemma run_pipeline_missing:
  assumes "c \<in> set required"
    and "c \<notin> set (map rename_column (columns (load_raw_matches file)))"
  shows "run_pipeline argsort cfg file written =
           (Inl (KeyError (missing_required (columns (load_raw_matches file)))), written)"
proof -
  let ?d1 = "add_diff ''rank_diff'' ''rank_1'' ''rank_2''
               (\<lambda>r. r\<lparr>rank_diff := sub_opt (rank_1 r) (rank_2 r)\<rparr>) (load_raw_matches file)"
  let ?d2 = "add_diff ''pts_diff'' ''pts_1'' ''pts_2''
               (\<lambda>r. r\<lparr>pts_diff := sub_opt (pts_1 r) (pts_2 r)\<rparr>) ?d1"
  let ?d3 = "add_diff ''odd_diff'' ''odd_1'' ''odd_2''
               (\<lambda>r. r\<lparr>odd_diff := sub_opt (odd_1 r) (odd_2 r)\<rparr>) ?d2"
  have m: "missing_required (columns ?d3) = missing_required (columns (load_raw_matches file))"
    by (simp add: add_diff_missing)
  have "c \<notin> set (map rename_column (columns ?d3))"
    using assms by (simp only: add_diff_required [OF assms(1)] insert_iff simp_thms)
  then have "preprocess argsort ?d3 cfg = Inl (KeyError (missing_required (columns ?d3)))"
    by (rule preprocess_missing [OF assms(1)])
  then show ?thesis
    by (simp add: run_pipeline_def Let_def m)
qed

text \<open>
  C9. When one of the required columns \<^verbatim>\<open>player_1\<close>, \<^verbatim>\<open>player_2\<close>, \<^verbatim>\<open>winner\<close>,
  \<^verbatim>\<open>date\<close> is missing, \<^verbatim>\<open>preprocess\<close> raises KeyError with the missing columns whatever
  the rows are, and \<^verbatim>\<open>run_pipeline\<close> raises the same error and writes no file.
\<close>

theorem missing_required_column_aborts:
  assumes "c \<in> set required"
  shows "(c \<notin> set (map rename_column (columns tbl)) \<longrightarrow>
            missing_required (columns tbl) \<noteq> [] \<and>
            (\<forall>argsort cfg rs. preprocess argsort (tbl\<lparr>rows := rs\<rparr>) cfg =
               Inl (KeyError (missing_required (columns tbl))))) \<and>
         (c \<notin> set (map rename_column (columns (load_raw_matches file))) \<longrightarrow>
            (\<forall>argsort cfg written. run_pipeline argsort cfg file written =
               (Inl (KeyError (missing_required (columns (load_raw_matches file)))), written)))"
proof (intro conjI impI allI)
  assume "c \<notin> set (map rename_column (columns tbl))"
  then have "c \<in> set (missing_required (columns tbl))"
    using assms by (simp add: missing_required_def)
  then show "missing_required (columns tbl) \<noteq> []" by auto
next
  fix argsort cfg rs
  assume "c \<notin> set (map rename_column (columns tbl))"
  then have "c \<notin> set (map rename_column (columns (tbl\<lparr>rows := rs\<rparr>)))" by simp
  from preprocess_missing [OF assms this]
  show "preprocess argsort (tbl\<lparr>rows := rs\<rparr>) cfg = Inl (KeyError (missing_required (columns tbl)))"
    by simp
next
  fix argsort cfg written
  assume "c \<notin> set (map rename_column (columns (load_raw_matches file)))"
  then show "run_pipeline argsort cfg file written =
               (Inl (KeyError (missing_required (columns (load_raw_matches file)))), written)"
    by (rule run_pipeline_missing [OF assms])
qed

theorem missing_required_column_aborts_witness:
  "''winner'' \<in> set required \<and>
   ''winner'' \<notin> set (map rename_column (columns (load_raw_matches no_winner_file))) \<and>
   run_pipeline stable_argsort default_config no_winner_file Map.empty =
     (Inl (KeyError [''winner'']), Map.empty)"
proof -
  have a: "''winner'' \<in> set required" by code_simp
  have b: "''winner'' \<notin> set (map rename_column (columns (load_raw_matches no_winner_file)))"
    by code_simp
  have c: "missing_required (columns (load_raw_matches no_winner_file)) = [''winner'']"
    by code_simp
  from missing_required_column_aborts [OF a, of no_winner_file no_winner_file] b
  have "run_pipeline stable_argsort default_config no_winner_file Map.empty =
     (Inl (KeyError (missing_required (columns (load_raw_matches no_winner_file)))), Map.empty)"
    by blast
  then show ?thesis using a b unfolding c by blast
qed

section \<open>No temporal leakage\<close>

lemma filter_index_less:
  "(\<forall>k < length xs. f (xs ! k) = k) \<Longrightarrow> filter (\<lambda>x. f x < i) xs = take i xs"
proof (induction xs rule: rev_induct)
  case Nil
  then show ?case by simp
next
  case (snoc y ys)
  have "\<forall>k < length ys. f (ys ! k) = k"
  proof (intro allI impI)
    fix k assume "k < length ys"
    then show "f (ys ! k) = k" using snoc.prems [rule_format, of k] by (simp add: nth_append)
  qed
  then have ih: "filter (\<lambda>x. f x < i) ys = take i ys" by (rule snoc.IH)
  have y: "f y = length ys" using snoc.prems [rule_format, of "length ys"] by simp
  show ?case by (simp add: ih y)
qed

lemma filter_index_eq:
  assumes "\<forall>k < length xs. f (xs ! k) = k" and "i < length xs"
  shows "filter (\<lambda>x. f x = i) xs = [xs ! i]"
proof -
  have "filter (\<lambda>x. f x = i) xs = filter (\<lambda>x. f x = i) (filter (\<lambda>x. f x < Suc i) xs)"
    by (auto intro: filter_cong)
  also have "\<dots> = filter (\<lambda>x. f x = i) (take i xs @ [xs ! i])"
    by (simp only: filter_index_less [OF assms(1)] take_Suc_conv_app_nth [OF assms(2)])
  also have "\<dots> = filter (\<lambda>x. f x = i) (filter (\<lambda>x. f x < i) xs) @ [xs ! i]"
    using assms by (simp add: filter_index_less [OF assms(1)])
  also have "filter (\<lambda>x. f x = i) (filter (\<lambda>x. f x < i) xs) = []"
    by (simp add: filter_empty_conv)
  finally show ?thesis by simp
qed

lemma sort_key_constant: "(\<forall>x \<in> set xs. k x = c) \<Longrightarrow> sort_key k xs = xs"
proof (induction xs)
  case Nil
  then show ?case by simp
next
  case (Cons x xs)
  then have "sort_key k xs = xs" by simp
  then show ?case using Cons.prems by (cases xs) simp_all
qed

lemma sorted_decompose:
  fixes f :: "'a \<Rightarrow> nat"
  assumes "sorted (map f xs)"
  shows "xs = filter (\<lambda>x. f x < c) xs @ filter (\<lambda>x. f x = c) xs @ filter (\<lambda>x. c < f x) xs"
  using assms
proof (induction xs)
  case Nil
  then show ?case by simp
next
  case (Cons x xs)
  then have ih: "xs = filter (\<lambda>x. f x < c) xs @ filter (\<lambda>x. f x = c) xs @ filter (\<lambda>x. c < f x) xs"
    and le: "\<forall>y \<in> set xs. f x \<le> f y"
    by simp_all
  consider "f x < c" | "f x = c" | "c < f x" by linarith
  then show ?case
  proof cases
    case 1
    then show ?thesis using ih by simp
  next
    case 2
    then have "filter (\<lambda>x. f x < c) xs = []" using le by (auto simp: filter_empty_conv)
    then show ?thesis using 2 ih by simp
  next
    case 3
    then have "filter (\<lambda>x. f x < c) xs = []" "filter (\<lambda>x. f x = c) xs = []"
      using le by (auto simp: filter_empty_conv)
    then show ?thesis using 3 ih by simp
  qed
qed

lemma takeWhile_filter:
  "(\<forall>x \<in> set xs. \<not> q x \<longrightarrow> r x) \<Longrightarrow> takeWhile q (filter r xs) = filter r (takeWhile q xs)"
  by (induction xs) auto

lemma find_indexed:
  "find (\<lambda>x. P (fst x)) (map (\<lambda>j. (s ! j, F j)) [0..<length s]) =
     (if \<exists>x \<in> set s. P x
      then Some (s ! length (takeWhile (\<lambda>x. \<not> P x) s), F (length (takeWhile (\<lambda>x. \<not> P x) s)))
      else None)"
proof (induction s arbitrary: F)
  case Nil
  then show ?case by simp
next
  case (Cons x xs)
  have "map (\<lambda>j. ((x # xs) ! j, F j)) [0..<length (x # xs)] =
        (x, F 0) # map (\<lambda>j. (xs ! j, F (Suc j))) [0..<length xs]"
    by (simp add: upt_conv_Cons map_Suc_upt [symmetric] del: upt_Suc)
  then show ?case using Cons.IH [of "\<lambda>j. F (Suc j)"] by simp
qed

lemma frame_match_id: "chronological_frame df \<Longrightarrow> k < length df \<Longrightarrow> match_id (df ! k) = k"
proof -
  assume a: "chronological_frame df" and k: "k < length df"
  then have "map match_id df ! k = [0..<length df] ! k" by (simp add: chronological_frame_def)
  then show ?thesis using k by simp
qed

lemma frame_ordinal_mono:
  "chronological_frame df \<Longrightarrow> k \<le> l \<Longrightarrow> l < length df \<Longrightarrow>
   ordinal (date (df ! k)) \<le> ordinal (date (df ! l))"
proof -
  assume a: "chronological_frame df" and k: "k \<le> l" "l < length df"
  then have "sorted (map (\<lambda>m. ordinal (date m)) df)" by (simp add: chronological_frame_def)
  from sorted_nth_mono [OF this, of k l] k show ?thesis by simp
qed

lemma half_fields:
  "l_match_id (half side m) = match_id m" "l_date (half side m) = date m"
  "l_surface (half side m) = surface m" "is_player_1 (half side m) = side"
  "player (half side m) = (if side then player_1 m else player_2 m)"
  by (simp_all add: half_def first_half_def second_half_def)

lemma expand_long_halves: "expand_long df = map (half True) df @ map (half False) df"
  by (simp add: expand_long_def half_def)

lemma in_expand_long:
  assumes "x \<in> set (expand_long df)"
  shows "\<exists>k < length df. \<exists>side. x = half side (df ! k)"
proof -
  from assms obtain side where "x \<in> set (map (half side) df)"
    by (auto simp: expand_long_halves)
  then obtain k where "k < length df" "x = half side (df ! k)"
    by (auto simp: in_set_conv_nth)
  then show ?thesis by blast
qed

lemma half_in_expand_long: "k < length df \<Longrightarrow> half side (df ! k) \<in> set (expand_long df)"
  by (cases side) (simp_all add: expand_long_halves)

lemma expand_long_less:
  assumes "chronological_frame df"
  shows "filter (\<lambda>x. l_match_id x < i) (expand_long df) = expand_long (take i df)"
proof -
  have ids: "\<forall>k < length df. match_id (df ! k) = k"
    using frame_match_id [OF assms] by blast
  have "filter (\<lambda>x. l_match_id x < i) (map (half side) df) = map (half side) (take i df)" for side
    by (simp add: filter_map comp_def half_fields filter_index_less [OF ids])
  then show ?thesis by (simp add: expand_long_halves)
qed

lemma expand_long_eq:
  assumes "chronological_frame df" and "i < length df"
  shows "filter (\<lambda>x. l_match_id x = i) (expand_long df) = [half True (df ! i), half False (df ! i)]"
proof -
  have ids: "\<forall>k < length df. match_id (df ! k) = k"
    using frame_match_id [OF assms(1)] by blast
  have "filter (\<lambda>x. l_match_id x = i) (map (half side) df) = [half side (df ! i)]" for side
    by (simp add: filter_map comp_def half_fields filter_index_eq [OF ids assms(2)])
  then show ?thesis by (simp add: expand_long_halves)
qed

lemma long_key_mono:
  assumes f: "chronological_frame df"
    and u: "u \<in> set (expand_long df)" and v: "v \<in> set (expand_long df)"
    and p: "player u = player v" and k: "long_key u \<le> long_key v"
  shows "l_match_id u \<le> l_match_id v"
proof (rule ccontr)
  assume "\<not> l_match_id u \<le> l_match_id v"
  then have lt: "l_match_id v < l_match_id u" by simp
  from u obtain a sa where a: "a < length df" "u = half sa (df ! a)"
    using in_expand_long by blast
  from v obtain b sb where b: "b < length df" "v = half sb (df ! b)"
    using in_expand_long by blast
  have ia: "l_match_id u = a" and ib: "l_match_id v = b"
    using a b frame_match_id [OF f] by (simp_all add: half_fields)
  have "ordinal (date (df ! b)) \<le> ordinal (date (df ! a))"
    using frame_ordinal_mono [OF f, of b a] lt a(1) ia ib by simp
  then have o: "ordinal (l_date v) \<le> ordinal (l_date u)"
    using a b by (simp add: half_fields)
  from k p have "ordinal (l_date u) < ordinal (l_date v) \<or>
      (ordinal (l_date u) \<le> ordinal (l_date v) \<and> l_match_id u \<le> l_match_id v)"
    by (simp add: long_key_def less_eq_prod_def)
  with o lt show False by simp
qed

lemma group_sorted_by_match_id:
  assumes f: "chronological_frame df"
  shows "sorted (map l_match_id (filter (\<lambda>x. player x = p) (sort_long (expand_long df))))"
proof -
  let ?g = "filter (\<lambda>x. player x = p) (sort_long (expand_long df))"
  have "sorted (map long_key (sort_long (expand_long df)))"
    by (simp add: sort_long_def)
  then have "sorted (map long_key ?g)" by (rule sorted_filter)
  then have "sorted_wrt (\<lambda>x y. long_key x \<le> long_key y) ?g"
    by (simp add: sorted_map)
  then have "sorted_wrt (\<lambda>x y. l_match_id x \<le> l_match_id y) ?g"
  proof (rule sorted_wrt_mono_rel [rotated])
    fix u v
    assume "u \<in> set ?g" "v \<in> set ?g" "long_key u \<le> long_key v"
    then show "l_match_id u \<le> l_match_id v"
      using long_key_mono [OF f, of u v] by (simp add: sort_long_def)
  qed
  then show ?thesis by (simp add: sorted_map)
qed


lemma unique_half:
  assumes f: "chronological_frame df" and i: "i < length df"
    and u: "u \<in> set (expand_long df)" and p: "is_player_1 u = side" "l_match_id u = i"
  shows "u = half side (df ! i)"
proof -
  from u obtain k s where k: "k < length df" "u = half s (df ! k)"
    using in_expand_long by blast
  then have "k = i" "s = side"
    using p frame_match_id [OF f, of k] by (simp_all add: half_fields)
  with k show ?thesis by simp
qed

lemma group_of_match:
  assumes f: "chronological_frame df" and i: "i < length df"
  shows "filter (\<lambda>x. l_match_id x = i) (filter (\<lambda>x. player x = p) (sort_long (expand_long df))) =
         filter (\<lambda>x. player x = p) [half True (df ! i), half False (df ! i)]"
proof -
  let ?two = "[half True (df ! i), half False (df ! i)]"
  have c: "\<forall>x \<in> set (filter (\<lambda>x. player x = p) ?two).
             long_key x = (p, ordinal (date (df ! i)), match_id (df ! i))"
    by (auto simp: long_key_def half_fields)
  have "filter (\<lambda>x. l_match_id x = i) (filter (\<lambda>x. player x = p) (sort_long (expand_long df))) =
        filter (\<lambda>x. player x = p) (sort_key long_key (filter (\<lambda>x. l_match_id x = i) (expand_long df)))"
    by (simp add: sort_long_def filter_sort conj_commute)
  also have "\<dots> = sort_key long_key (filter (\<lambda>x. player x = p) ?two)"
    by (simp only: expand_long_eq [OF f i] filter_sort)
  also have "\<dots> = filter (\<lambda>x. player x = p) ?two"
    by (rule sort_key_constant [OF c])
  finally show ?thesis .
qed

lemma group_before_match:
  assumes f: "chronological_frame df"
  shows "filter (\<lambda>x. l_match_id x < i) (filter (\<lambda>x. player x = p) (sort_long (expand_long df))) =
         filter (\<lambda>x. player x = p) (sort_long (expand_long (take i df)))"
proof -
  have "filter (\<lambda>x. l_match_id x < i) (filter (\<lambda>x. player x = p) (sort_long (expand_long df))) =
        filter (\<lambda>x. player x = p) (sort_key long_key (filter (\<lambda>x. l_match_id x < i) (expand_long df)))"
    by (simp add: sort_long_def filter_sort conj_commute)
  then show ?thesis
    by (simp only: expand_long_less [OF f] sort_long_def)
qed

lemma history_of_half:
  assumes f: "chronological_frame df" and i: "i < length df"
  shows "filter (\<lambda>x. player x = player (half side (df ! i)))
           (takeWhile (\<lambda>x. \<not> (is_player_1 x = side \<and> l_match_id x = i)) (sort_long (expand_long df))) =
         past_rows (take i df) (df ! i) side"
proof -
  let ?s = "sort_long (expand_long df)"
  let ?r0 = "half side (df ! i)"
  let ?R = "\<lambda>x. player x = player ?r0"
  let ?Q = "\<lambda>x. \<not> (is_player_1 x = side \<and> l_match_id x = i)"
  let ?g = "filter ?R ?s"
  let ?lt = "filter ?R (sort_long (expand_long (take i df)))"
  let ?x = "if \<not> side \<and> player_1 (df ! i) = player_2 (df ! i) then [first_half (df ! i)] else []"
  have set_s: "set ?s = set (expand_long df)" by (simp add: sort_long_def)
  have only: "\<forall>x \<in> set ?s. \<not> ?Q x \<longrightarrow> ?R x"
  proof (intro ballI impI)
    fix x assume "x \<in> set ?s" and "\<not> ?Q x"
    then have "x \<in> set (expand_long df)" and "is_player_1 x = side" and "l_match_id x = i"
      using set_s by simp_all
    then have "x = ?r0" by (rule unique_half [OF f i])
    then show "?R x" by simp
  qed
  have tw: "takeWhile ?Q ?g = filter ?R (takeWhile ?Q ?s)"
    by (rule takeWhile_filter [OF only])
  have dec: "?g = filter (\<lambda>x. l_match_id x < i) ?g @ filter (\<lambda>x. l_match_id x = i) ?g @
                  filter (\<lambda>x. i < l_match_id x) ?g"
    by (rule sorted_decompose [OF group_sorted_by_match_id [OF f]])
  have lt: "filter (\<lambda>x. l_match_id x < i) ?g = ?lt"
    by (rule group_before_match [OF f])
  have eq: "filter (\<lambda>x. l_match_id x = i) ?g = filter ?R [half True (df ! i), half False (df ! i)]"
    by (rule group_of_match [OF f i])
  have mid: "\<exists>rest. filter ?R [half True (df ! i), half False (df ! i)] = ?x @ ?r0 # rest"
    by (cases side) (auto simp: half_def first_half_def second_half_def)
  then obtain rest where m: "filter ?R [half True (df ! i), half False (df ! i)] = ?x @ ?r0 # rest"
    by blast
  note dec' = dec [unfolded lt eq m]
  have g: "?g = (?lt @ ?x) @ ?r0 # (rest @ filter (\<lambda>x. i < l_match_id x) ?g)"
    by (rule trans [OF dec']) simp
  have q1: "\<forall>x \<in> set (?lt @ ?x). ?Q x"
  proof
    fix x assume "x \<in> set (?lt @ ?x)"
    then consider "x \<in> set ?lt" | "x \<in> set ?x" by auto
    then show "?Q x"
    proof cases
      case 1
      then have "x \<in> set (filter (\<lambda>x. l_match_id x < i) ?g)" by (simp only: lt)
      then show ?thesis by simp
    next
      case 2
      then show ?thesis by (auto simp: first_half_def split: if_splits)
    qed
  qed
  have q2: "\<not> ?Q ?r0" using frame_match_id [OF f i] by (simp add: half_fields)
  have "takeWhile ?Q ?g = ?lt @ ?x"
    by (subst g) (simp only: takeWhile_append2 [of "?lt @ ?x" ?Q, OF q1 [rule_format]]
        takeWhile.simps q2 if_False append_Nil2)
  then show ?thesis
    unfolding past_rows_def tw [symmetric] by simp
qed

lemma length_takeWhile_lt: "\<exists>x \<in> set xs. \<not> q x \<Longrightarrow> length (takeWhile q xs) < length xs"
  by (induction xs) auto

lemma side_of_frame:
  assumes f: "chronological_frame df" and i: "i < length df"
  shows "side_of side
           (map (\<lambda>j. (sort_long (expand_long df) ! j, rolled_at cfg (sort_long (expand_long df)) j))
              [0..<length (sort_long (expand_long df))]) i =
         snapshot_of cfg (past_rows (take i df) (df ! i) side) (half side (df ! i))"
proof -
  let ?s = "sort_long (expand_long df)"
  let ?r0 = "half side (df ! i)"
  let ?Q = "\<lambda>x. \<not> (is_player_1 x = side \<and> l_match_id x = i)"
  let ?n = "length (takeWhile ?Q ?s)"
  have set_s: "set ?s = set (expand_long df)" by (simp add: sort_long_def)
  have r0: "?r0 \<in> set ?s" "\<not> ?Q ?r0"
    using half_in_expand_long [OF i] frame_match_id [OF f i] by (simp_all add: set_s half_fields)
  then have ex: "\<exists>x \<in> set ?s. \<not> ?Q x" by blast
  then have n: "?n < length ?s" by (rule length_takeWhile_lt)
  have "\<not> ?Q (?s ! ?n)" by (rule nth_length_takeWhile [OF n])
  moreover have "?s ! ?n \<in> set (expand_long df)" using n set_s nth_mem by blast
  ultimately have at: "?s ! ?n = ?r0" using unique_half [OF f i] by blast
  have tk: "take ?n ?s = takeWhile ?Q ?s" by (rule takeWhile_eq_take [symmetric])
  have h: "history ?s ?n = past_rows (take i df) (df ! i) side"
    unfolding history_def at tk by (rule history_of_half [OF f i])
  have "side_of side (map (\<lambda>j. (?s ! j, rolled_at cfg ?s j)) [0..<length ?s]) i = rolled_at cfg ?s ?n"
    unfolding side_of_def
    using ex find_indexed [of "\<lambda>x. is_player_1 x = side \<and> l_match_id x = i" ?s "rolled_at cfg ?s"]
    by simp
  also have "\<dots> = snapshot_of cfg (history ?s ?n) (?s ! ?n)"
    by (rule rolled_at_snapshot [OF n])
  finally show ?thesis by (simp only: h at)
qed

lemma assemble_ok:
  "(\<exists>ws. assemble cfg df = Inr ws) \<longleftrightarrow>
     \<not> (df \<noteq> [] \<and> rolling_matches cfg < 3) \<and>
     \<not> ((\<exists>m \<in> set df. surface m \<noteq> None) \<and> rolling_surface_matches cfg < 2)"
proof -
  have l: "length (sort_long (expand_long df)) = length df + length df"
    by (simp add: sort_long_def expand_long_def)
  have "(sort_long (expand_long df) = []) = (length (sort_long (expand_long df)) = 0)"
    by simp
  also have "\<dots> = (df = [])" unfolding l by simp
  finally have e: "sort_long (expand_long df) \<noteq> [] \<longleftrightarrow> df \<noteq> []" by simp
  have s: "(\<exists>r \<in> set (sort_long (expand_long df)). l_surface r \<noteq> None) \<longleftrightarrow>
           (\<exists>m \<in> set df. surface m \<noteq> None)"
  proof
    assume "\<exists>r \<in> set (sort_long (expand_long df)). l_surface r \<noteq> None"
    then obtain r where r: "r \<in> set (expand_long df)" "l_surface r \<noteq> None"
      by (auto simp: sort_long_def)
    then obtain k side where k: "k < length df" "r = half side (df ! k)"
      using in_expand_long by blast
    then have "df ! k \<in> set df" "surface (df ! k) \<noteq> None"
      using r(2) by (simp_all add: half_fields)
    then show "\<exists>m \<in> set df. surface m \<noteq> None" by blast
  next
    assume "\<exists>m \<in> set df. surface m \<noteq> None"
    then obtain k where k: "k < length df" "surface (df ! k) \<noteq> None"
      by (auto simp: in_set_conv_nth)
    then have "half True (df ! k) \<in> set (sort_long (expand_long df))"
      using half_in_expand_long [of k df True] by (simp add: sort_long_def)
    moreover have "l_surface (half True (df ! k)) \<noteq> None"
      using k(2) by (simp add: half_fields)
    ultimately show "\<exists>r \<in> set (sort_long (expand_long df)). l_surface r \<noteq> None" by blast
  qed
  show ?thesis
    unfolding assemble_def add_rolling_features_def Let_def e s
    by (auto split: sum.splits if_splits)
qed

lemma assemble_nth:
  assumes f: "chronological_frame df" and i: "i < length df" and a: "assemble cfg df = Inr ws"
  shows "ws ! i = pre_match_row cfg (take i df) (df ! i)"
proof -
  let ?s = "sort_long (expand_long df)"
  let ?frame = "map (\<lambda>j. (?s ! j, rolled_at cfg ?s j)) [0..<length ?s]"
  have ws: "ws = aggregate_back (zip df (zip (compute_elo cfg df) (compute_head_to_head df))) ?frame"
    using a unfolding assemble_def add_rolling_features_def Let_def
    by (auto split: sum.splits if_splits)
  have l: "length (compute_elo cfg df) = length df" "length (compute_head_to_head df) = length df"
    by (simp_all add: compute_elo_def compute_head_to_head_def length_run_loop)
  have "ws ! i =
      \<lparr>row = df ! i, elo_cols = compute_elo cfg df ! i, h2h_cols = compute_head_to_head df ! i,
       p1 = side_of True ?frame (match_id (df ! i)), p2 = side_of False ?frame (match_id (df ! i))\<rparr>"
    unfolding ws aggregate_back_def using i l by simp
  also have "\<dots> = pre_match_row cfg (take i df) (df ! i)"
    unfolding pre_match_row_def frame_match_id [OF f i] side_of_frame [OF f i]
    using i by (simp add: compute_elo_def compute_head_to_head_def run_loop_nth fst_h2h_step half_def)
  finally show ?thesis .
qed


lemma chronological_frame_take:
  assumes "chronological_frame df"
  shows "chronological_frame (take n df)"
proof -
  have "sorted (take n (map (\<lambda>m. ordinal (date m)) df))"
    using assms by (simp add: chronological_frame_def sorted_wrt_take)
  moreover have "map match_id (take n df) = [0..<length (take n df)]"
  proof -
    have "map match_id (take n df) = take n (map match_id df)"
      by (rule take_map [symmetric])
    also have "\<dots> = take n [0..<length df]"
      using assms by (simp add: chronological_frame_def)
    finally show ?thesis by (simp add: take_upt min_def)
  qed
  ultimately show ?thesis by (simp add: chronological_frame_def take_map)
qed

lemma chronological_frame_update:
  assumes "chronological_frame df"
  shows "chronological_frame (df[i := (df ! i)\<lparr>winner := w, score := sc\<rparr>])"
proof (cases "i < length df")
  case True
  have "map (\<lambda>m. ordinal (date m)) (df[i := (df ! i)\<lparr>winner := w, score := sc\<rparr>]) =
        (map (\<lambda>m. ordinal (date m)) df)[i := map (\<lambda>m. ordinal (date m)) df ! i]"
    using True by (simp add: map_update)
  moreover have "map match_id (df[i := (df ! i)\<lparr>winner := w, score := sc\<rparr>]) =
        (map match_id df)[i := map match_id df ! i]"
    using True by (simp add: map_update)
  ultimately show ?thesis using assms by (simp add: chronological_frame_def)
next
  case False
  then have "length df \<le> i" by simp
  then have "df[i := (df ! i)\<lparr>winner := w, score := sc\<rparr>] = df" by (rule list_update_beyond)
  then show ?thesis using assms by simp
qed

lemma assemble_ok_take:
  assumes "assemble cfg df = Inr ws"
  shows "\<exists>ws'. assemble cfg (take n df) = Inr ws'"
proof -
  have "set (take n df) \<subseteq> set df" by (rule set_take_subset)
  moreover have "take n df \<noteq> [] \<longrightarrow> df \<noteq> []" by auto
  moreover have "\<not> (df \<noteq> [] \<and> rolling_matches cfg < 3) \<and>
     \<not> ((\<exists>m \<in> set df. surface m \<noteq> None) \<and> rolling_surface_matches cfg < 2)"
    using assms assemble_ok [of cfg df] by blast
  ultimately have "\<not> (take n df \<noteq> [] \<and> rolling_matches cfg < 3) \<and>
     \<not> ((\<exists>m \<in> set (take n df). surface m \<noteq> None) \<and> rolling_surface_matches cfg < 2)"
    by blast
  then show ?thesis by (rule assemble_ok [THEN iffD2])
qed

lemma assemble_ok_update:
  assumes "assemble cfg df = Inr ws"
  shows "\<exists>ws'. assemble cfg (df[i := (df ! i)\<lparr>winner := w, score := sc\<rparr>]) = Inr ws'"
proof -
  let ?df = "df[i := (df ! i)\<lparr>winner := w, score := sc\<rparr>]"
  have a: "\<not> (df \<noteq> [] \<and> rolling_matches cfg < 3) \<and>
     \<not> ((\<exists>m \<in> set df. surface m \<noteq> None) \<and> rolling_surface_matches cfg < 2)"
    using assms assemble_ok [of cfg df] by blast
  have e: "?df \<noteq> [] \<longrightarrow> df \<noteq> []" by simp
  have s: "(\<exists>m \<in> set ?df. surface m \<noteq> None) \<longrightarrow> (\<exists>m \<in> set df. surface m \<noteq> None)"
  proof
    assume "\<exists>m \<in> set ?df. surface m \<noteq> None"
    then obtain k where k: "k < length df" "surface (?df ! k) \<noteq> None"
      by (auto simp: in_set_conv_nth)
    then have "surface (df ! k) \<noteq> None" by (cases "k = i") simp_all
    with k(1) show "\<exists>m \<in> set df. surface m \<noteq> None" using nth_mem by blast
  qed
  from a e s have "\<not> (?df \<noteq> [] \<and> rolling_matches cfg < 3) \<and>
     \<not> ((\<exists>m \<in> set ?df. surface m \<noteq> None) \<and> rolling_surface_matches cfg < 2)"
    by blast
  then show ?thesis by (rule assemble_ok [THEN iffD2])
qed

lemma pre_match_row_own_outcome:
  assumes "player_1 m \<noteq> player_2 m"
  shows "features_of (pre_match_row cfg prior (m\<lparr>winner := w, score := sc\<rparr>)) =
         features_of (pre_match_row cfg prior m)"
  using assms
  by (simp add: features_of_def pre_match_row_def elo_step_def elo_update_def Let_def h2h_read_def
      snapshot_of_def past_rows_def half_def first_half_def second_half_def)

lemma games_margin_diff_pre_match_row:
  "games_margin_diff (pre_match_row cfg prior m) =
     sub_opt (games_delta_avg (snapshot_of cfg (past_rows prior m True) (first_half m)))
             (games_delta_avg (snapshot_of cfg (past_rows prior m False) (second_half m)))"
  by (simp add: games_margin_diff_def pre_match_row_def)

lemma rank_trend_pre_match_row:
  "rank_trend (p1 (pre_match_row cfg prior m)) =
     rank_trend (snapshot_of cfg (past_rows prior m True) (first_half m))"
  by (simp add: pre_match_row_def)

text \<open>
  For every frame in processing order (dates ascending, match ids equal to the positions)
  and every position \<open>i\<close>, the wide row of match \<open>i\<close> is the same whether the features
  are computed over the whole frame or over its first \<open>i + 1\<close> matches: it is
  \<^const>\<open>pre_match_row\<close> of the first \<open>i\<close> matches and match \<open>i\<close>, so no later match enters it.
  When the two players of match \<open>i\<close> are distinct, its ratings, head-to-head values and
  form features are also the same for every winner and every score of match \<open>i\<close> itself.
\<close>

theorem no_leak_on_truncation:
  assumes "chronological_frame df" and "i < length df" and "assemble cfg df = Inr ws"
  shows "(\<exists>ws'. assemble cfg (take (Suc i) df) = Inr ws' \<and> ws' ! i = ws ! i) \<and>
         ws ! i = pre_match_row cfg (take i df) (df ! i) \<and>
         (player_1 (df ! i) \<noteq> player_2 (df ! i) \<longrightarrow>
            (\<forall>w sc. \<exists>ws2. assemble cfg (df[i := (df ! i)\<lparr>winner := w, score := sc\<rparr>]) = Inr ws2 \<and>
               features_of (ws2 ! i) = features_of (ws ! i)))"
proof (intro conjI impI allI)
  show full: "ws ! i = pre_match_row cfg (take i df) (df ! i)"
    by (rule assemble_nth [OF assms])
  from assemble_ok_take [OF assms(3), of "Suc i"]
  obtain ws' where t: "assemble cfg (take (Suc i) df) = Inr ws'" by blast
  have "ws' ! i = pre_match_row cfg (take i (take (Suc i) df)) (take (Suc i) df ! i)"
    using assms(2) by (intro assemble_nth [OF chronological_frame_take [OF assms(1)] _ t]) simp
  then have "ws' ! i = ws ! i" using full by simp
  with t show "\<exists>ws'. assemble cfg (take (Suc i) df) = Inr ws' \<and> ws' ! i = ws ! i" by blast
  fix w sc
  assume d: "player_1 (df ! i) \<noteq> player_2 (df ! i)"
  let ?df = "df[i := (df ! i)\<lparr>winner := w, score := sc\<rparr>]"
  from assemble_ok_update [OF assms(3), where i = i and w = w and sc = sc]
  obtain ws2 where u: "assemble cfg ?df = Inr ws2" by blast
  have "ws2 ! i = pre_match_row cfg (take i ?df) (?df ! i)"
    using assms(2) by (intro assemble_nth [OF chronological_frame_update [OF assms(1)] _ u]) simp
  then have "ws2 ! i = pre_match_row cfg (take i df) ((df ! i)\<lparr>winner := w, score := sc\<rparr>)"
    using assms(2) by simp
  then have "features_of (ws2 ! i) = features_of (ws ! i)"
    using pre_match_row_own_outcome [OF d] full by simp
  with u show "\<exists>ws2. assemble cfg ?df = Inr ws2 \<and> features_of (ws2 ! i) = features_of (ws ! i)"
    by blast
qed


theorem no_leak_on_truncation_witness:
  "chronological_frame rank_stream \<and> 3 < length rank_stream \<and>
   player_1 (rank_stream ! 3) \<noteq> player_2 (rank_stream ! 3) \<and>
   (\<exists>ws ws'. assemble default_config rank_stream = Inr ws \<and>
      assemble default_config (take (Suc 3) rank_stream) = Inr ws' \<and>
      ws' ! 3 = ws ! 3 \<and>
      rank_trend (p1 (ws ! 3)) = Some 20)"
proof -
  have c: "chronological_frame rank_stream" by code_simp
  have l: "3 < length rank_stream" by code_simp
  have d: "player_1 (rank_stream ! 3) \<noteq> player_2 (rank_stream ! 3)" by code_simp
  have "\<exists>ws. assemble default_config rank_stream = Inr ws"
    by (rule assemble_ok [THEN iffD2]) (simp add: default_config_def)
  then obtain ws where a: "assemble default_config rank_stream = Inr ws" by blast
  note t = no_leak_on_truncation [OF c l a]
  from t obtain ws' where w: "assemble default_config (take (Suc 3) rank_stream) = Inr ws'"
    "ws' ! 3 = ws ! 3" by blast
  have r: "rank_trend (snapshot_of default_config (past_rows (take 3 rank_stream) (rank_stream ! 3) True)
      (first_half (rank_stream ! 3))) = Some 20"
    by code_simp
  have "ws ! 3 = pre_match_row default_config (take 3 rank_stream) (rank_stream ! 3)"
    using t by blast
  then have "rank_trend (p1 (ws ! 3)) = Some 20"
    by (simp only: rank_trend_pre_match_row r)
  with c l d a w show ?thesis by blast
qed

text \<open>
  C1. No feature row is to incorporate the match's own outcome. When both sides of a match
  name the same player, the row of the first side precedes the row of the second side in
  that player's history, so the second side's trailing means include the match itself:
  after three matches of a player, a fourth match of that player against herself has a
  games-margin difference of \<open>- 7 / 4\<close> with the score \<^verbatim>\<open>6-0 6-0\<close> and of \<open>3 / 4\<close> with
  the score \<^verbatim>\<open>7-6 7-6\<close>, everything else being equal.
\<close>

theorem own_score_leaks_into_self_match:
  "chronological_frame (self_match_stream ''6-0 6-0'') \<and>
   self_match_stream ''7-6 7-6'' =
     (self_match_stream ''6-0 6-0'')[3 := (self_match_stream ''6-0 6-0'' ! 3)\<lparr>score := Some ''7-6 7-6''\<rparr>] \<and>
   (\<exists>ws ws2. assemble default_config (self_match_stream ''6-0 6-0'') = Inr ws \<and>
      assemble default_config (self_match_stream ''7-6 7-6'') = Inr ws2 \<and>
      games_margin_diff (ws ! 3) = Some (- 7 / 4) \<and>
      games_margin_diff (ws2 ! 3) = Some (3 / 4))"
proof -
  have c: "chronological_frame (self_match_stream ''6-0 6-0'')"
          "chronological_frame (self_match_stream ''7-6 7-6'')"
    by code_simp+
  have l: "3 < length (self_match_stream ''6-0 6-0'')" "3 < length (self_match_stream ''7-6 7-6'')"
    by code_simp+
  have u: "self_match_stream ''7-6 7-6'' =
     (self_match_stream ''6-0 6-0'')[3 := (self_match_stream ''6-0 6-0'' ! 3)\<lparr>score := Some ''7-6 7-6''\<rparr>]"
    by (simp add: self_match_stream_def)
  have "\<exists>ws. assemble default_config (self_match_stream ''6-0 6-0'') = Inr ws"
    by (rule assemble_ok [THEN iffD2]) (simp add: default_config_def)
  then obtain ws where a: "assemble default_config (self_match_stream ''6-0 6-0'') = Inr ws" by blast
  have "\<exists>ws. assemble default_config (self_match_stream ''7-6 7-6'') = Inr ws"
    by (rule assemble_ok [THEN iffD2]) (simp add: default_config_def)
  then obtain ws2 where b: "assemble default_config (self_match_stream ''7-6 7-6'') = Inr ws2" by blast
  have e1: "sub_opt
       (games_delta_avg (snapshot_of default_config
          (past_rows (take 3 (self_match_stream ''6-0 6-0'')) (self_match_stream ''6-0 6-0'' ! 3) True)
          (first_half (self_match_stream ''6-0 6-0'' ! 3))))
       (games_delta_avg (snapshot_of default_config
          (past_rows (take 3 (self_match_stream ''6-0 6-0'')) (self_match_stream ''6-0 6-0'' ! 3) False)
          (second_half (self_match_stream ''6-0 6-0'' ! 3)))) = Some (- 7 / 4)"
    by code_simp
  have e2: "sub_opt
       (games_delta_avg (snapshot_of default_config
          (past_rows (take 3 (self_match_stream ''7-6 7-6'')) (self_match_stream ''7-6 7-6'' ! 3) True)
          (first_half (self_match_stream ''7-6 7-6'' ! 3))))
       (games_delta_avg (snapshot_of default_config
          (past_rows (take 3 (self_match_stream ''7-6 7-6'')) (self_match_stream ''7-6 7-6'' ! 3) False)
          (second_half (self_match_stream ''7-6 7-6'' ! 3)))) = Some (3 / 4)"
    by code_simp
  have g1: "games_margin_diff (ws ! 3) = Some (- 7 / 4)"
    unfolding assemble_nth [OF c(1) l(1) a] games_margin_diff_pre_match_row by (rule e1)
  have g2: "games_margin_diff (ws2 ! 3) = Some (3 / 4)"
    unfolding assemble_nth [OF c(2) l(2) b] games_margin_diff_pre_match_row by (rule e2)
  from c(1) u a b g1 g2 show ?thesis by blast
qed

end
